theory Spec2Isabelle
  imports Complex_Main
begin

section \<open>Values and failures of the Python run-time\<close>

text \<open>
  The analysis of \<^verbatim>\<open>gluten_analysis_app.py\<close> and \<^verbatim>\<open>gluten_analysis_simple.py\<close> works on
  NumPy \<^verbatim>\<open>float64\<close> scalars. A value is a finite number, the negative zero, an infinity
  or NaN. \<open>Fin 0\<close> is \<^verbatim>\<open>+0.0\<close>; \<open>NZero\<close> is \<^verbatim>\<open>-0.0\<close>, kept apart because a division by it
  gives the infinity of the other sign.
\<close>

datatype npfloat = Fin real | NZero | PInf | NInf | NaN

text \<open>The exceptions the modelled statements can raise.\<close>

datatype py_error = IndexError | ValueError | OverflowError

definition py_bind :: "py_error + 'a \<Rightarrow> ('a \<Rightarrow> py_error + 'b) \<Rightarrow> py_error + 'b" where
  "py_bind m f = (case m of Inl e \<Rightarrow> Inl e | Inr v \<Rightarrow> f v)"

subsection \<open>Rounding to \<^verbatim>\<open>float64\<close>\<close>

text \<open>
  Every arithmetic operation returns the exact result rounded to the nearest
  \<^verbatim>\<open>float64\<close>, ties to the even significand (IEEE 754 binary64, the default rounding
  mode). The representable numbers around \<open>x\<close> are the multiples of
  \<open>2 ^ (e - 52)\<close>, where \<open>2 ^ e \<le> \<bar>x\<bar> < 2 ^ (e + 1)\<close>, and of \<open>2 ^ (- 1074)\<close> in the
  subnormal range. A rounded magnitude of \<open>2 ^ 1024\<close> or more overflows to an infinity,
  and a result rounded to zero keeps its sign.
\<close>

definition round_half_even :: "real \<Rightarrow> int" where
  "round_half_even y =
     (let f = \<lfloor>y\<rfloor>; d = y - of_int f in
      if d < 1 / 2 then f else if 1 / 2 < d then f + 1 else if even f then f else f + 1)"

definition f64_quantum :: "real \<Rightarrow> real" where
  "f64_quantum x = 2 powi (max (\<lfloor>log 2 \<bar>x\<bar>\<rfloor> - 52) (- 1074))"

definition f64_round :: "real \<Rightarrow> npfloat" where
  "f64_round x =
     (if x = 0 then Fin 0
      else (let v = of_int (round_half_even (x / f64_quantum x)) * f64_quantum x in
            if 2 ^ 1024 \<le> \<bar>v\<bar> then (if 0 < x then PInf else NInf)
            else if v = 0 then (if x < 0 then NZero else Fin 0)
            else Fin v))"

text \<open>
  A decimal literal of the source, such as \<^verbatim>\<open>0.1\<close>, denotes the \<^verbatim>\<open>float64\<close> nearest to
  it.
\<close>

definition py_float :: "real \<Rightarrow> npfloat" where
  "py_float x = f64_round x"

subsection \<open>Arithmetic\<close>

fun finite_val :: "npfloat \<Rightarrow> real option" where
  "finite_val (Fin a) = Some a"
| "finite_val NZero = Some 0"
| "finite_val _ = None"

fun sign_bit :: "npfloat \<Rightarrow> bool" where
  "sign_bit (Fin a) = (a < 0)"
| "sign_bit NZero = True"
| "sign_bit NInf = True"
| "sign_bit _ = False"

definition signed_zero :: "bool \<Rightarrow> npfloat" where
  "signed_zero s = (if s then NZero else Fin 0)"

definition signed_inf :: "bool \<Rightarrow> npfloat" where
  "signed_inf s = (if s then NInf else PInf)"

text \<open>The rounded value of an exact product or quotient whose sign bit is \<open>s\<close>.\<close>

definition f64_round_signed :: "bool \<Rightarrow> real \<Rightarrow> npfloat" where
  "f64_round_signed s x = (if x = 0 then signed_zero s else f64_round x)"

fun np_neg :: "npfloat \<Rightarrow> npfloat" where
  "np_neg (Fin a) = (if a = 0 then NZero else Fin (- a))"
| "np_neg NZero = Fin 0"
| "np_neg PInf = NInf"
| "np_neg NInf = PInf"
| "np_neg NaN = NaN"

text \<open>
  Addition: an exact sum of zero is \<^verbatim>\<open>+0.0\<close> unless both operands are negative (zeros);
  infinities of opposite sign give NaN.
\<close>

definition np_add :: "npfloat \<Rightarrow> npfloat \<Rightarrow> npfloat" where
  "np_add x y =
     (if x = NaN \<or> y = NaN then NaN
      else case (finite_val x, finite_val y) of
        (Some a, Some b) \<Rightarrow>
          if a + b = 0 then signed_zero (sign_bit x \<and> sign_bit y) else f64_round (a + b)
      | (Some a, None) \<Rightarrow> y
      | (None, Some b) \<Rightarrow> x
      | (None, None) \<Rightarrow> if x = y then x else NaN)"

definition np_sub :: "npfloat \<Rightarrow> npfloat \<Rightarrow> npfloat" where
  "np_sub x y = np_add x (np_neg y)"

definition np_mul :: "npfloat \<Rightarrow> npfloat \<Rightarrow> npfloat" where
  "np_mul x y =
     (if x = NaN \<or> y = NaN then NaN
      else let s = (sign_bit x \<noteq> sign_bit y) in
        case (finite_val x, finite_val y) of
          (Some a, Some b) \<Rightarrow> f64_round_signed s (a * b)
        | (Some a, None) \<Rightarrow> if a = 0 then NaN else signed_inf s
        | (None, Some b) \<Rightarrow> if b = 0 then NaN else signed_inf s
        | (None, None) \<Rightarrow> signed_inf s)"

text \<open>
  True division of \<^verbatim>\<open>float64\<close> scalars: a zero divisor gives an infinity (or NaN for
  \<^verbatim>\<open>0/0\<close>) with a warning, never \<^verbatim>\<open>ZeroDivisionError\<close>; the sign of the infinity is the
  sign of the dividend times the sign of the zero.
\<close>

definition np_div :: "npfloat \<Rightarrow> npfloat \<Rightarrow> npfloat" where
  "np_div x y =
     (if x = NaN \<or> y = NaN then NaN
      else let s = (sign_bit x \<noteq> sign_bit y) in
        case (finite_val x, finite_val y) of
          (Some a, Some b) \<Rightarrow>
            if b = 0 then (if a = 0 then NaN else signed_inf s)
            else f64_round_signed s (a / b)
        | (Some a, None) \<Rightarrow> signed_zero s
        | (None, Some b) \<Rightarrow> signed_inf s
        | (None, None) \<Rightarrow> NaN)"

fun np_sqrt :: "npfloat \<Rightarrow> npfloat" where
  "np_sqrt (Fin a) = (if a < 0 then NaN else f64_round (sqrt a))"
| "np_sqrt NZero = NZero"
| "np_sqrt PInf = PInf"
| "np_sqrt NInf = NaN"
| "np_sqrt NaN = NaN"

text \<open>Comparisons: the two zeros are equal, and every comparison with NaN is false.\<close>

fun unsigned :: "npfloat \<Rightarrow> npfloat" where
  "unsigned NZero = Fin 0"
| "unsigned x = x"

fun less_values :: "npfloat \<Rightarrow> npfloat \<Rightarrow> bool" where
  "less_values (Fin a) (Fin b) = (a < b)"
| "less_values NaN _ = False"
| "less_values _ NaN = False"
| "less_values _ NInf = False"
| "less_values PInf _ = False"
| "less_values _ _ = True"

definition np_less :: "npfloat \<Rightarrow> npfloat \<Rightarrow> bool" where
  "np_less x y = less_values (unsigned x) (unsigned y)"

definition np_greater :: "npfloat \<Rightarrow> npfloat \<Rightarrow> bool" where
  "np_greater x y = np_less y x"

definition np_le :: "npfloat \<Rightarrow> npfloat \<Rightarrow> bool" where
  "np_le x y = (x \<noteq> NaN \<and> y \<noteq> NaN \<and> (unsigned x = unsigned y \<or> np_less x y))"

text \<open>
  \<^verbatim>\<open>int(x)\<close> on a float: truncation towards zero; \<^verbatim>\<open>OverflowError\<close> on an infinity and
  \<^verbatim>\<open>ValueError\<close> on NaN.
\<close>

fun py_int :: "npfloat \<Rightarrow> py_error + int" where
  "py_int (Fin a) = Inr (if 0 \<le> a then \<lfloor>a\<rfloor> else \<lceil>a\<rceil>)"
| "py_int NZero = Inr 0"
| "py_int PInf = Inl OverflowError"
| "py_int NInf = Inl OverflowError"
| "py_int NaN = Inl ValueError"

section \<open>The loaded series\<close>

text \<open>
  The data frame read from the CSV file: one row per sample, with the columns the
  analysis reads. A column \<^verbatim>\<open>df['c']\<close> is the list of that field over the rows. The
  samples themselves are finite numbers.
\<close>

record sample =
  time :: real
  gFx :: real
  gFy :: real
  gFz :: real
  gFTotal :: real

type_synonym dataframe = "sample list"

definition column :: "(sample \<Rightarrow> real) \<Rightarrow> dataframe \<Rightarrow> real list" where
  "column c df = map c df"

text \<open>\<^verbatim>\<open>Series.iloc[i]\<close> for \<^verbatim>\<open>i >= 0\<close>: \<^verbatim>\<open>IndexError\<close> out of bounds.\<close>

definition iloc :: "real list \<Rightarrow> nat \<Rightarrow> py_error + real" where
  "iloc xs i = (if i < length xs then Inr (xs ! i) else Inl IndexError)"

text \<open>
  \<^verbatim>\<open>Series.max()\<close>, \<^verbatim>\<open>Series.mean()\<close>: NaN on an empty series. The mean and the standard
  deviation of the whole column are taken as the exact values that the reductions of
  pandas approximate.
\<close>

definition series_max :: "real list \<Rightarrow> npfloat" where
  "series_max xs = (case xs of [] \<Rightarrow> NaN | x # r \<Rightarrow> Fin (fold max r x))"

definition mean_of :: "real list \<Rightarrow> real" where
  "mean_of xs = sum_list xs / real (length xs)"

definition series_mean :: "real list \<Rightarrow> npfloat" where
  "series_mean xs = (if xs = [] then NaN else Fin (mean_of xs))"

text \<open>
  \<^verbatim>\<open>Series.std()\<close> is called with no argument, so with pandas' default \<^verbatim>\<open>ddof=1\<close>: the
  squared deviations from the mean are divided by \<open>n - 1\<close>, and fewer than two values
  give NaN.
\<close>

definition sum_sq_dev :: "real list \<Rightarrow> real" where
  "sum_sq_dev xs = sum_list (map (\<lambda>x. (x - mean_of xs)\<^sup>2) xs)"

definition std_ddof1 :: "real list \<Rightarrow> real" where
  "std_ddof1 xs = sqrt (sum_sq_dev xs / real (length xs - 1))"

definition series_std :: "real list \<Rightarrow> npfloat" where
  "series_std xs = (if length xs < 2 then NaN else Fin (std_ddof1 xs))"

section \<open>Library operations the analysis calls\<close>

subsection \<open>\<^verbatim>\<open>scipy.signal.find_peaks(x, height=h)\<close>\<close>

text \<open>
  SciPy first collects the local maxima of \<open>x\<close> with one scan from index 1 to the
  last index but one: a sample higher than its left neighbour opens a plateau, the scan
  runs ahead over the samples equal to it, and if the sample after the plateau is lower
  the plateau is a maximum, reported at its middle index (rounded down). Only then are the
  maxima filtered: with a scalar \<^verbatim>\<open>height\<close> the value is the \<^emph>\<open>minimal\<close> required height,
  tested as \<^verbatim>\<open>height <= x[peak]\<close>.
\<close>

function plateau_end :: "real list \<Rightarrow> nat \<Rightarrow> nat \<Rightarrow> nat" where
  "plateau_end x i i_ahead =
     (if i_ahead < length x - 1 \<and> x ! i_ahead = x ! i
      then plateau_end x i (i_ahead + 1) else i_ahead)"
  by pat_completeness auto
termination
  by (relation "measure (\<lambda>(x, i, i_ahead). length x - i_ahead)") auto

declare plateau_end.simps [simp del]

lemma plateau_end_ge: "i_ahead \<le> plateau_end x i i_ahead"
proof (induction x i i_ahead rule: plateau_end.induct)
  case (1 x i i_ahead)
  show ?case
  proof (cases "i_ahead < length x - 1 \<and> x ! i_ahead = x ! i")
    case True
    with 1 have "i_ahead + 1 \<le> plateau_end x i (i_ahead + 1)" by simp
    with True show ?thesis by (subst plateau_end.simps) simp
  next
    case False
    then show ?thesis by (subst plateau_end.simps) auto
  qed
qed

function local_maxima_from :: "real list \<Rightarrow> nat \<Rightarrow> nat list" where
  "local_maxima_from x i =
     (if i < length x - 1 then
        (if x ! (i - 1) < x ! i then
           (let i_ahead = plateau_end x i (i + 1) in
            if x ! i_ahead < x ! i
            then ((i + (i_ahead - 1)) div 2) # local_maxima_from x (i_ahead + 1)
            else local_maxima_from x (i + 1))
         else local_maxima_from x (i + 1))
      else [])"
  by pat_completeness auto
termination
proof (relation "measure (\<lambda>(x, i). length x - i)")
  show "wf (measure (\<lambda>(x, i). length x - i))" by simp
next
  fix x :: "real list" and i i_ahead :: nat
  assume "i < length x - 1" and "i_ahead = plateau_end x i (i + 1)"
  moreover have "i + 1 \<le> plateau_end x i (i + 1)" by (rule plateau_end_ge)
  ultimately show "((x, i_ahead + 1), (x, i)) \<in> measure (\<lambda>(x, i). length x - i)"
    by simp
qed auto

declare local_maxima_from.simps [simp del]

definition local_maxima_1d :: "real list \<Rightarrow> nat list" where
  "local_maxima_1d x = local_maxima_from x 1"

definition find_peaks :: "real list \<Rightarrow> npfloat \<Rightarrow> nat list" where
  "find_peaks x height = filter (\<lambda>p. np_le height (Fin (x ! p))) (local_maxima_1d x)"

text \<open>
  Two shapes of a signal, for stating what the scan finds. A plateau peak is a run of equal
  samples from index \<open>l\<close> to index \<open>r\<close>, inside the signal, whose neighbours on both
  sides are lower. A single pulse rises strictly up to index \<open>m\<close> and falls strictly
  after it.
\<close>

definition plateau_peak :: "real list \<Rightarrow> nat \<Rightarrow> nat \<Rightarrow> bool" where
  "plateau_peak x l r \<longleftrightarrow>
     0 < l \<and> l \<le> r \<and> r + 1 < length x \<and> x ! (l - 1) < x ! l
     \<and> (\<forall>k\<in>{l..r}. x ! k = x ! l) \<and> x ! (r + 1) < x ! l"

definition single_pulse :: "real list \<Rightarrow> nat \<Rightarrow> bool" where
  "single_pulse x m \<longleftrightarrow>
     0 < m \<and> m + 1 < length x \<and> (\<forall>j\<in>{..<m}. x ! j < x ! (j + 1))
     \<and> (\<forall>j\<in>{m..<length x - 1}. x ! (j + 1) < x ! j)"

subsection \<open>\<^verbatim>\<open>numpy.argmax\<close> and indexing\<close>

text \<open>
  \<^verbatim>\<open>np.argmax\<close> scans the array once and keeps the index of the first element that is
  strictly greater than every element before it; on an empty array it raises
  \<^verbatim>\<open>ValueError\<close>.
\<close>

fun argmax_scan :: "real list \<Rightarrow> nat \<Rightarrow> nat \<Rightarrow> real \<Rightarrow> nat" where
  "argmax_scan [] i best mx = best"
| "argmax_scan (v # vs) i best mx =
     (if mx < v then argmax_scan vs (i + 1) i v else argmax_scan vs (i + 1) best mx)"

definition np_argmax :: "real list \<Rightarrow> py_error + nat" where
  "np_argmax a = (case a of [] \<Rightarrow> Inl ValueError | v # vs \<Rightarrow> Inr (argmax_scan vs 1 0 v))"

definition np_getitem :: "real list \<Rightarrow> nat \<Rightarrow> py_error + real" where
  "np_getitem a k = (if k < length a then Inr (a ! k) else Inl IndexError)"

subsection \<open>\<^verbatim>\<open>scipy.signal.welch\<close> and \<^verbatim>\<open>scipy.signal.spectrogram\<close>\<close>

text \<open>
  The Welch estimate itself (Hann-windowed, averaged periodograms) is numerical library
  code; the analysis only passes it the magnitude column, the sampling rate and
  \<^verbatim>\<open>nperseg=1024\<close>, and reads back the pair \<^verbatim>\<open>(freqs, psd)\<close>. It is a parameter of the
  model.
\<close>

type_synonym welch_fn = "real list \<Rightarrow> npfloat \<Rightarrow> nat \<Rightarrow> py_error + (real list \<times> real list)"

text \<open>
  \<^verbatim>\<open>create_spectrogram\<close> calls \<^verbatim>\<open>spectrogram(data, fs=sampling_rate, window='hann',
  nperseg=1024, noverlap=512)\<close>; its arrays are only drawn. What matters here is whether
  the call returns: SciPy shortens \<^verbatim>\<open>nperseg\<close> to the length of a shorter input and then
  raises \<^verbatim>\<open>ValueError\<close> (\<^verbatim>\<open>noverlap must be less than nperseg\<close>) unless more than 512
  samples are left; an empty input is answered with empty arrays.
\<close>

definition create_spectrogram :: "real list \<Rightarrow> npfloat \<Rightarrow> py_error + unit" where
  "create_spectrogram data rate =
     (if length data = 0 then Inr ()
      else if min 1024 (length data) \<le> 512 then Inl ValueError
      else Inr ())"

subsection \<open>\<^verbatim>\<open>Series.rolling(window=w, center=True).std()\<close>\<close>

text \<open>
  pandas rejects a negative window with \<^verbatim>\<open>ValueError\<close>, and a window that does not fit a
  signed 64-bit integer fails with \<^verbatim>\<open>OverflowError\<close> when it is handed to the compiled
  routine. Otherwise the window of row \<open>i\<close> ends (exclusively) at
  \<open>i + 1 + (w - 1) // 2\<close> and starts \<open>w\<close> rows earlier, both clipped to the series.
\<close>

definition clip :: "int \<Rightarrow> int \<Rightarrow> int \<Rightarrow> int" where
  "clip v lo hi = min (max v lo) hi"

definition get_window_bounds :: "nat \<Rightarrow> int \<Rightarrow> nat \<Rightarrow> int \<times> int" where
  "get_window_bounds num_values window_size i =
     (let offset = (window_size - 1) div 2;
          stop = int i + 1 + offset;
          start = stop - window_size
      in (clip start 0 (int num_values), clip stop 0 (int num_values)))"

text \<open>The two bounds of the window of row \<open>i\<close>.\<close>

definition win_start :: "nat \<Rightarrow> int \<Rightarrow> nat \<Rightarrow> int" where
  "win_start n w i = fst (get_window_bounds n w i)"

definition win_stop :: "nat \<Rightarrow> int \<Rightarrow> nat \<Rightarrow> int" where
  "win_stop n w i = snd (get_window_bounds n w i)"

text \<open>
  The variance of the windows is computed by \<^verbatim>\<open>roll_var\<close> with one running state that is
  updated from row to row: the rows that leave the window are removed, the rows that
  enter it are added (Welford's update of the mean and of the sum of squared deviations,
  with a Kahan compensation term for each direction). Each step is a \<^verbatim>\<open>float64\<close>
  operation. The state also counts how many values in a row were equal, so that a window
  of equal values gets the variance 0 whatever the rounding before it was.
\<close>

record var_state =
  nobs :: int
  mean_x :: npfloat
  ssqdm_x :: npfloat
  compensation_add :: npfloat
  compensation_remove :: npfloat
  num_consecutive_same_value :: int
  prev_value :: real

definition add_var :: "real \<Rightarrow> var_state \<Rightarrow> var_state" where
  "add_var val st =
     (let n = nobs st + 1;
          same = (if val = prev_value st then num_consecutive_same_value st + 1 else 1);
          prev_mean = np_sub (mean_x st) (compensation_add st);
          y = np_sub (Fin val) (compensation_add st);
          t = np_sub y (mean_x st);
          comp = np_sub (np_add t (mean_x st)) y;
          mean = (if n \<noteq> 0 then np_add (mean_x st) (np_div t (Fin (of_int n))) else Fin 0);
          ssq = np_add (ssqdm_x st)
                  (np_mul (np_sub (Fin val) prev_mean) (np_sub (Fin val) mean))
      in st \<lparr> nobs := n, mean_x := mean, ssqdm_x := ssq, compensation_add := comp,
              num_consecutive_same_value := same, prev_value := val \<rparr>)"

definition remove_var :: "real \<Rightarrow> var_state \<Rightarrow> var_state" where
  "remove_var val st =
     (let n = nobs st - 1 in
      if n \<noteq> 0 then
        (let prev_mean = np_sub (mean_x st) (compensation_remove st);
             y = np_sub (Fin val) (compensation_remove st);
             t = np_sub y (mean_x st);
             comp = np_sub (np_add t (mean_x st)) y;
             mean = np_sub (mean_x st) (np_div t (Fin (of_int n)));
             ssq = np_sub (ssqdm_x st)
                     (np_mul (np_sub (Fin val) prev_mean) (np_sub (Fin val) mean))
         in st \<lparr> nobs := n, mean_x := mean, ssqdm_x := ssq, compensation_remove := comp \<rparr>)
      else st \<lparr> nobs := n, mean_x := Fin 0, ssqdm_x := Fin 0 \<rparr>)"

text \<open>
  \<^verbatim>\<open>calc_var\<close>: NaN unless the window holds at least \<^verbatim>\<open>minp\<close> rows and more than
  \<^verbatim>\<open>ddof\<close> of them.
\<close>

definition calc_var :: "int \<Rightarrow> int \<Rightarrow> var_state \<Rightarrow> npfloat" where
  "calc_var minp ddof st =
     (if minp \<le> nobs st \<and> ddof < nobs st then
        (if nobs st = 1 \<or> nobs st \<le> num_consecutive_same_value st then Fin 0
         else np_div (ssqdm_x st) (Fin (of_int (nobs st - ddof))))
      else NaN)"

definition add_range :: "real list \<Rightarrow> int \<Rightarrow> int \<Rightarrow> var_state \<Rightarrow> var_state" where
  "add_range values a b st = fold (\<lambda>j. add_var (values ! j)) [nat a..<nat b] st"

definition remove_range :: "real list \<Rightarrow> int \<Rightarrow> int \<Rightarrow> var_state \<Rightarrow> var_state" where
  "remove_range values a b st = fold (\<lambda>j. remove_var (values ! j)) [nat a..<nat b] st"

definition first_window :: "real list \<Rightarrow> int \<Rightarrow> int \<Rightarrow> var_state" where
  "first_window values s e =
     add_range values s e
       \<lparr> nobs = 0, mean_x = Fin 0, ssqdm_x = Fin 0, compensation_add = Fin 0,
         compensation_remove = Fin 0, num_consecutive_same_value = 0,
         prev_value = values ! nat s \<rparr>"

text \<open>
  The state after the loop body of \<^verbatim>\<open>roll_var\<close> for row \<open>i\<close>: a window that starts at or
  after the end of the previous one is computed afresh, any other from the state of the
  previous row.
\<close>

fun roll_state :: "real list \<Rightarrow> int \<Rightarrow> nat \<Rightarrow> var_state" where
  "roll_state values w 0 =
     (let (s, e) = get_window_bounds (length values) w 0 in first_window values s e)"
| "roll_state values w (Suc i) =
     (let (s, e) = get_window_bounds (length values) w (Suc i);
          (s0, e0) = get_window_bounds (length values) w i
      in if e0 \<le> s then first_window values s e
         else add_range values e0 e (remove_range values s0 s (roll_state values w i)))"

text \<open>
  A state in which the last value added was \<open>c\<close> and the count of equal values in a
  row is not behind the number of rows in the window. On a constant series every state
  of the loop is of this kind.
\<close>

definition run_covers :: "real \<Rightarrow> var_state \<Rightarrow> bool" where
  "run_covers c st \<longleftrightarrow> prev_value st = c \<and> nobs st \<le> num_consecutive_same_value st"

text \<open>
  The standard deviation is \<^verbatim>\<open>zsqrt\<close> of the variance: the square root, with 0 in place of
  the root of a negative variance. \<^verbatim>\<open>min_periods\<close> defaults to the window, and
  \<^verbatim>\<open>roll_var\<close> raises it to at least 1; \<^verbatim>\<open>ddof\<close> is 1.
\<close>

definition zsqrt :: "npfloat \<Rightarrow> npfloat" where
  "zsqrt x = (if np_less x (Fin 0) then Fin 0 else np_sqrt x)"

definition roll_std_at :: "real list \<Rightarrow> int \<Rightarrow> nat \<Rightarrow> npfloat" where
  "roll_std_at xs w i = zsqrt (calc_var (max w 1) 1 (roll_state xs w i))"

definition rolling_center_std :: "real list \<Rightarrow> int \<Rightarrow> py_error + npfloat list" where
  "rolling_center_std xs w =
     (if w < 0 then Inl ValueError
      else if 2 ^ 63 \<le> w then Inl OverflowError
      else Inr (map (roll_std_at xs w) [0..<length xs]))"

text \<open>
  Row \<open>i\<close> has a full window when the \<open>w\<close> rows from \<open>i - w div 2\<close> to
  \<open>i + (w - 1) div 2\<close> all lie in a series of \<open>n\<close> rows.
\<close>

definition window_fits :: "nat \<Rightarrow> int \<Rightarrow> nat \<Rightarrow> bool" where
  "window_fits n w i \<longleftrightarrow> w div 2 \<le> int i \<and> int i + (w - 1) div 2 < int n"

subsection \<open>\<^verbatim>\<open>Series.quantile(q)\<close> and the comparison with it\<close>

text \<open>
  \<^verbatim>\<open>quantile\<close> drops the NaN entries and nothing else, and returns NaN when nothing is
  left. Otherwise \<^verbatim>\<open>np.percentile\<close> sorts the rest and interpolates linearly between the
  two entries around position \<open>q * (n - 1)\<close>, from the upper entry when the fraction is
  at least one half. For \<open>q = 0.75\<close>, the only value the source passes, the position and
  the fraction are exact.
\<close>

definition dropna :: "npfloat list \<Rightarrow> npfloat list" where
  "dropna s = filter (\<lambda>v. v \<noteq> NaN) s"

fun insort_np :: "npfloat \<Rightarrow> npfloat list \<Rightarrow> npfloat list" where
  "insort_np v [] = [v]"
| "insort_np v (u # us) = (if np_less v u then v # u # us else u # insort_np v us)"

definition np_sort :: "npfloat list \<Rightarrow> npfloat list" where
  "np_sort vs = foldr insort_np vs []"

definition np_lerp :: "npfloat \<Rightarrow> npfloat \<Rightarrow> real \<Rightarrow> npfloat" where
  "np_lerp a b t =
     (let diff_b_a = np_sub b a in
      if 1 / 2 \<le> t then np_sub b (np_mul diff_b_a (Fin (1 - t)))
      else np_add a (np_mul diff_b_a (Fin t)))"

definition quantile :: "npfloat list \<Rightarrow> real \<Rightarrow> npfloat" where
  "quantile s q =
     (let vs = np_sort (dropna s); n = length vs in
      if n = 0 then NaN
      else (let pos = q * real (n - 1);
                lo = nat \<lfloor>pos\<rfloor>;
                hi = min (lo + 1) (n - 1)
            in np_lerp (vs ! lo) (vs ! hi) (pos - real lo)))"

section \<open>The analysis, as each entry point has it\<close>

text \<open>
  The statement \<^verbatim>\<open>sampling_rate = 1 / (df['time'].iloc[1] - df['time'].iloc[0])\<close>
  (line 43 of the app, line 40 of the script): the two reads raise \<^verbatim>\<open>IndexError\<close> on a
  series with fewer than two rows; the division is not guarded. \<open>rate_of\<close> is the
  arithmetic of the statement on the two values read.
\<close>

definition rate_of :: "npfloat \<Rightarrow> npfloat \<Rightarrow> npfloat" where
  "rate_of t1 t0 = np_div (Fin 1) (np_sub t1 t0)"

definition infer_rate :: "real list \<Rightarrow> py_error + npfloat" where
  "infer_rate t =
     py_bind (iloc t 1) (\<lambda>t1.
     py_bind (iloc t 0) (\<lambda>t0.
       Inr (rate_of (Fin t1) (Fin t0))))"

text \<open>The statement \<^verbatim>\<open>window_size = int(sampling_rate * 10)\<close> (line 49, line 46).\<close>

definition window_size_of :: "npfloat \<Rightarrow> py_error + int" where
  "window_size_of rate = py_int (np_mul rate (Fin 10))"

text \<open>The height passed to \<^verbatim>\<open>find_peaks\<close>: \<^verbatim>\<open>mean_gforce + 0.5*std_gforce\<close>.\<close>

definition peak_height :: "npfloat \<Rightarrow> npfloat \<Rightarrow> npfloat" where
  "peak_height mean_g std_g = np_add mean_g (np_mul (Fin 0.5) std_g)"

text \<open>\<^verbatim>\<open>freqs[np.argmax(psd)]\<close>.\<close>

definition dominant_freq_of :: "real list \<Rightarrow> real list \<Rightarrow> py_error + real" where
  "dominant_freq_of fs ps = py_bind (np_argmax ps) (\<lambda>k. np_getitem fs k)"

text \<open>
  The dictionary returned by \<^verbatim>\<open>analyze_gluten_development\<close>. The script's dictionary has
  the seven entries of the app's and two more.
\<close>

record analysis =
  total_time :: npfloat
  mean_gforce :: npfloat
  std_gforce :: npfloat
  num_peaks :: nat
  sampling_rate :: npfloat
  dominant_freq :: real
  rolling_std :: "npfloat list"

record analysis_simple = analysis +
  freqs :: "real list"
  psd :: "real list"

text \<open>\<^verbatim>\<open>analyze_gluten_development\<close> of \<^verbatim>\<open>gluten_analysis_app.py\<close> (lines 32 to 62).\<close>

definition analyze_gluten_development_app :: "welch_fn \<Rightarrow> dataframe \<Rightarrow> py_error + analysis" where
  "analyze_gluten_development_app welch df =
     (let tot = series_max (column time df);
          mean_g = series_mean (column gFTotal df);
          std_g = series_std (column gFTotal df);
          peaks = find_peaks (column gFTotal df) (peak_height mean_g std_g)
      in py_bind (infer_rate (column time df)) (\<lambda>rate.
         py_bind (welch (column gFTotal df) rate 1024) (\<lambda>(fs, ps).
         py_bind (window_size_of rate) (\<lambda>window_size.
         py_bind (rolling_center_std (column gFTotal df) window_size) (\<lambda>rolling.
         py_bind (dominant_freq_of fs ps) (\<lambda>dom.
           Inr \<lparr> total_time = tot, mean_gforce = mean_g, std_gforce = std_g,
                 num_peaks = length peaks, sampling_rate = rate,
                 dominant_freq = dom, rolling_std = rolling \<rparr>))))))"

text \<open>\<^verbatim>\<open>analyze_gluten_development\<close> of \<^verbatim>\<open>gluten_analysis_simple.py\<close> (lines 30 to 61).\<close>

definition analyze_gluten_development_simple ::
    "welch_fn \<Rightarrow> dataframe \<Rightarrow> py_error + analysis_simple" where
  "analyze_gluten_development_simple welch df =
     (let tot = series_max (column time df);
          mean_g = series_mean (column gFTotal df);
          std_g = series_std (column gFTotal df);
          peaks = find_peaks (column gFTotal df) (peak_height mean_g std_g)
      in py_bind (infer_rate (column time df)) (\<lambda>rate.
         py_bind (welch (column gFTotal df) rate 1024) (\<lambda>(fs, ps).
         py_bind (window_size_of rate) (\<lambda>window_size.
         py_bind (rolling_center_std (column gFTotal df) window_size) (\<lambda>rolling.
         py_bind (dominant_freq_of fs ps) (\<lambda>dom.
           Inr \<lparr> total_time = tot, mean_gforce = mean_g, std_gforce = std_g,
                 num_peaks = length peaks, sampling_rate = rate,
                 dominant_freq = dom, rolling_std = rolling,
                 freqs = fs, psd = ps \<rparr>))))))"

section \<open>The findings derived from the analysis\<close>

text \<open>
  \<^verbatim>\<open>std_coefficient = analysis['std_gforce'] / analysis['mean_gforce']\<close> and the
  \<^verbatim>\<open>if/elif/else\<close> chain on it. The chain stands three times in the source: in \<^verbatim>\<open>main\<close> of
  the app (lines 157 to 164), in \<^verbatim>\<open>create_analysis_plots\<close> (lines 121, 141 to 146) and in
  \<^verbatim>\<open>main\<close> of the script (lines 191 to 199). Each branch emits a message; the model
  returns which branch was taken.
\<close>

datatype variation = HighVariation | ModerateVariation | LowVariation

definition std_coefficient_of :: "'a analysis_scheme \<Rightarrow> npfloat" where
  "std_coefficient_of a = np_div (std_gforce a) (mean_gforce a)"

definition assess_variation_app :: "'a analysis_scheme \<Rightarrow> variation" where
  "assess_variation_app a =
     (let std_coefficient = std_coefficient_of a in
      if np_greater std_coefficient (py_float 0.1) then HighVariation
      else if np_greater std_coefficient (py_float 0.05) then ModerateVariation
      else LowVariation)"

definition assess_variation_plots :: "'a analysis_scheme \<Rightarrow> variation" where
  "assess_variation_plots a =
     (let std_coefficient = std_coefficient_of a in
      if np_greater std_coefficient (py_float 0.1) then HighVariation
      else if np_greater std_coefficient (py_float 0.05) then ModerateVariation
      else LowVariation)"

definition assess_variation_console :: "'a analysis_scheme \<Rightarrow> variation" where
  "assess_variation_console a =
     (let std_coefficient = std_coefficient_of a in
      if np_greater std_coefficient (py_float 0.1) then HighVariation
      else if np_greater std_coefficient (py_float 0.05) then ModerateVariation
      else LowVariation)"

text \<open>
  \<^verbatim>\<open>analysis['rolling_std'] > analysis['rolling_std'].quantile(0.75)\<close>: a boolean series.
  The app tests \<^verbatim>\<open>.any()\<close> and reports \<^verbatim>\<open>.sum()\<close> (lines 140 to 146); the script keeps
  \<^verbatim>\<open>.sum()\<close> (line 122).
\<close>

definition high_activity_threshold :: "'a analysis_scheme \<Rightarrow> npfloat" where
  "high_activity_threshold a = quantile (rolling_std a) 0.75"

definition high_activity_mask :: "npfloat list \<Rightarrow> bool list" where
  "high_activity_mask rolling = map (\<lambda>v. np_greater v (quantile rolling 0.75)) rolling"

definition count_true :: "bool list \<Rightarrow> nat" where
  "count_true bs = length (filter (\<lambda>b. b) bs)"

datatype activity_report = HighActivityDetected nat | NoHighActivity

definition high_activity_app :: "'a analysis_scheme \<Rightarrow> activity_report" where
  "high_activity_app a =
     (let high_activity_periods = high_activity_mask (rolling_std a) in
      if list_ex (\<lambda>b. b) high_activity_periods
      then HighActivityDetected (count_true high_activity_periods)
      else NoHighActivity)"

definition high_activity_simple :: "'a analysis_scheme \<Rightarrow> nat" where
  "high_activity_simple a = count_true (high_activity_mask (rolling_std a))"

section \<open>The two programs\<close>

text \<open>
  What runs between the analysis and the findings. In the app, \<^verbatim>\<open>main\<close> calls
  \<^verbatim>\<open>plot_spectrogram\<close> (line 132), which computes the spectrogram (line 76) and the Welch
  estimate once more (line 88), before it compares the rolling indicator with its
  percentile (line 140) and assesses the variation (line 157). In the script, \<^verbatim>\<open>main\<close>
  calls \<^verbatim>\<open>create_analysis_plots\<close> (line 172), which computes the spectrogram (line 80),
  counts the high-activity points (line 122) and assesses the variation (line 141), and
  then assesses the variation again for the console (line 191). Drawing and printing are
  left out. An exception leaves the \<^verbatim>\<open>try\<close> block of \<^verbatim>\<open>main\<close>, whose handler reports it;
  the model returns it.
\<close>

definition plot_spectrogram :: "welch_fn \<Rightarrow> dataframe \<Rightarrow> analysis \<Rightarrow> py_error + unit" where
  "plot_spectrogram welch df a =
     py_bind (create_spectrogram (column gFTotal df) (sampling_rate a)) (\<lambda>_.
     py_bind (welch (column gFTotal df) (sampling_rate a) 1024) (\<lambda>_. Inr ()))"

definition main_app :: "welch_fn \<Rightarrow> dataframe \<Rightarrow> py_error + activity_report \<times> variation" where
  "main_app welch df =
     py_bind (analyze_gluten_development_app welch df) (\<lambda>a.
     py_bind (plot_spectrogram welch df a) (\<lambda>_.
       Inr (high_activity_app a, assess_variation_app a)))"

definition create_analysis_plots :: "dataframe \<Rightarrow> analysis_simple \<Rightarrow> py_error + nat \<times> variation" where
  "create_analysis_plots df a =
     py_bind (create_spectrogram (column gFTotal df) (sampling_rate a)) (\<lambda>_.
       Inr (high_activity_simple a, assess_variation_plots a))"

definition main_simple ::
    "welch_fn \<Rightarrow> dataframe \<Rightarrow> py_error + nat \<times> variation \<times> variation" where
  "main_simple welch df =
     py_bind (analyze_gluten_development_simple welch df) (\<lambda>a.
     py_bind (create_analysis_plots df a) (\<lambda>(high_activity_periods, plotted).
       Inr (high_activity_periods, plotted, assess_variation_console a)))"

section \<open>Example data\<close>

text \<open>An analysis result with chosen mean and deviation, for evaluating the findings.\<close>

definition example_analysis :: "npfloat \<Rightarrow> npfloat \<Rightarrow> analysis" where
  "example_analysis m s =
     \<lparr> total_time = Fin 600, mean_gforce = m, std_gforce = s, num_peaks = 0,
       sampling_rate = Fin 10, dominant_freq = 2, rolling_std = [NaN, NaN, NaN] \<rparr>"

text \<open>
  A recording of five samples, one second apart, with one pulse; a recording of two
  samples; and a stand-in for the Welch estimate with three bins, two of them sharing
  the maximal power.
\<close>

definition example_frame :: dataframe where
  "example_frame =
     map (\<lambda>(t, g). \<lparr> time = t, gFx = 0, gFy = 0, gFz = g, gFTotal = g \<rparr>)
       [(0, 0), (1, 4), (2, 7), (3, 4), (4, 0)]"

definition example_pair :: dataframe where
  "example_pair =
     map (\<lambda>(t, g). \<lparr> time = t, gFx = 0, gFy = 0, gFz = g, gFTotal = g \<rparr>) [(0, 1), (1, 3)]"

definition example_welch :: welch_fn where
  "example_welch x rate nperseg = Inr ([0, 1 / 5, 2 / 5], [1, 6, 6])"

text \<open>
  A recording of 600 samples at 64 samples per second, a sawtooth between 1 and 2. It is
  long enough for the spectrogram and shorter than the rolling window of 640 samples.
\<close>

definition example_recording :: dataframe where
  "example_recording =
     map (\<lambda>i. \<lparr> time = real i / 64, gFx = 0, gFy = 0, gFz = 1 + real (i mod 64) / 64,
                gFTotal = 1 + real (i mod 64) / 64 \<rparr>) [0..<600]"

section \<open>Facts about rounding\<close>

lemma round_half_even_of_int: "round_half_even (of_int n) = n"
  by (simp add: round_half_even_def)

lemma round_half_even_error: "\<bar>of_int (round_half_even y) - y\<bar> \<le> 1 / 2"
proof -
  have "of_int \<lfloor>y\<rfloor> \<le> y" "y < of_int \<lfloor>y\<rfloor> + 1" by linarith+
  then show ?thesis by (auto simp add: round_half_even_def Let_def)
qed

lemma two_powr_int: "(2::real) powr real_of_int n = 2 powi n"
  by (simp add: powr_real_of_int')

lemma floor_log2_bounds:
  assumes "0 < y"
  shows "2 powi \<lfloor>log 2 y\<rfloor> \<le> y" and "y < 2 powi (\<lfloor>log 2 y\<rfloor> + 1)"
proof -
  have "2 powr real_of_int \<lfloor>log 2 y\<rfloor> \<le> y \<and> y < 2 powr real_of_int (\<lfloor>log 2 y\<rfloor> + 1)"
    using assms by (subst floor_log_eq_powr_iff [symmetric]) simp_all
  then show "2 powi \<lfloor>log 2 y\<rfloor> \<le> y" and "y < 2 powi (\<lfloor>log 2 y\<rfloor> + 1)"
    by (simp_all only: two_powr_int)
qed

lemma floor_log2_eq:
  assumes "2 powi e \<le> y" and "y < 2 powi (e + 1)"
  shows "\<lfloor>log 2 y\<rfloor> = e"
proof -
  have "(0::real) < 2 powi e" by simp
  with assms(1) have y: "0 < y" by linarith
  have "2 powr real_of_int e \<le> y \<and> y < 2 powr real_of_int (e + 1)"
    using assms by (simp only: two_powr_int)
  with y show ?thesis by (subst floor_log_eq_powr_iff) simp_all
qed



lemma two_powi_less_imp_less:
  assumes "(2::real) powi a < 2 powi b"
  shows "a < b"
proof (rule ccontr)
  assume "\<not> a < b"
  then have "b \<le> a" by simp
  then have "(2::real) powi b \<le> 2 powi a" by (intro power_int_increasing) simp_all
  with assms show False by simp
qed

lemma f64_round_exact:
  assumes m: "\<bar>m\<bar> < 2 ^ 53" and k: "- 1074 \<le> k" "k \<le> 971"
  shows "f64_round (of_int m * 2 powi k) = Fin (of_int m * 2 powi k)"
proof (cases "m = 0")
  case True
  then show ?thesis by (simp add: f64_round_def)
next
  case False
  let ?x = "real_of_int m * 2 powi k"
  let ?e = "\<lfloor>log 2 \<bar>?x\<bar>\<rfloor>"
  let ?g = "max (?e - 52) (- 1074)"
  have pk: "(0::real) < 2 powi k" by simp
  from False have x0: "?x \<noteq> 0" by simp
  then have ax: "0 < \<bar>?x\<bar>" by simp
  have absx: "\<bar>?x\<bar> = real_of_int \<bar>m\<bar> * 2 powi k" by (simp add: abs_mult)
  from m have mr: "real_of_int \<bar>m\<bar> < 2 ^ 53"
    by (metis of_int_less_iff of_int_numeral of_int_power)
  have "\<bar>?x\<bar> < 2 ^ 53 * 2 powi k"
    unfolding absx using mr pk by (rule mult_strict_right_mono)
  also have "\<dots> = 2 powi (53 + k)" by (simp add: power_int_add)
  finally have up: "\<bar>?x\<bar> < 2 powi (53 + k)" .
  from floor_log2_bounds(1) [OF ax] up have "(2::real) powi ?e < 2 powi (53 + k)" by linarith
  then have "?e < 53 + k" by (rule two_powi_less_imp_less)
  with k(1) have gk: "?g \<le> k" by simp
  define g where "g = ?g"
  define d where "d = nat (k - g)"
  from gk have kd: "k = g + int d" by (simp add: d_def g_def)
  have pg: "(2::real) powi g \<noteq> 0" by simp
  have "(2::real) powi (g + int d) = 2 powi g * 2 ^ d"
    by (simp add: power_int_add)
  then have xeq: "?x = real_of_int (m * 2 ^ d) * 2 powi g"
    unfolding kd by simp
  then have quotg: "?x / 2 powi g = real_of_int (m * 2 ^ d)"
    by (metis pg nonzero_mult_div_cancel_right)
  have fq: "f64_quantum ?x = 2 powi g" by (simp only: f64_quantum_def g_def)
  have rhe: "round_half_even (?x / 2 powi g) = m * 2 ^ d"
    by (simp only: quotg round_half_even_of_int)
  have v: "real_of_int (round_half_even (?x / f64_quantum ?x)) * f64_quantum ?x = ?x"
    unfolding fq rhe by (rule xeq [symmetric])
  have "real_of_int \<bar>m\<bar> \<le> 2 ^ 53 - 1"
  proof -
    from m have "\<bar>m\<bar> \<le> 2 ^ 53 - 1" by simp
    then have "real_of_int \<bar>m\<bar> \<le> real_of_int (2 ^ 53 - 1)" by (simp only: of_int_le_iff)
    then show ?thesis by simp
  qed
  moreover have "(2::real) powi k \<le> 2 powi 971" using k(2) by (intro power_int_increasing) simp_all
  ultimately have "\<bar>?x\<bar> \<le> (2 ^ 53 - 1) * 2 powi 971"
    unfolding absx by (intro mult_mono) simp_all
  also have "\<dots> < 2 ^ 1024" by simp
  finally have small: "\<not> 2 ^ 1024 \<le> \<bar>?x\<bar>" by simp
  show ?thesis
    unfolding f64_round_def Let_def v using x0 small by simp
qed

lemma f64_round_normal_value:
  assumes lo: "2 powi (- 1022) \<le> \<bar>x\<bar>" and hi: "\<bar>x\<bar> \<le> 2 powi 1023"
  shows "\<exists>v. f64_round x = Fin v
           \<and> v = real_of_int (round_half_even (x / 2 powi (\<lfloor>log 2 \<bar>x\<bar>\<rfloor> - 52)))
                   * 2 powi (\<lfloor>log 2 \<bar>x\<bar>\<rfloor> - 52)
           \<and> \<bar>v - x\<bar> \<le> \<bar>x\<bar> / 2 ^ 53
           \<and> (0 < x \<longrightarrow> 0 < v) \<and> (x < 0 \<longrightarrow> v < 0)"
proof -
  let ?e = "\<lfloor>log 2 \<bar>x\<bar>\<rfloor>"
  let ?q = "(2::real) powi (?e - 52)"
  have "(0::real) < 2 powi (- 1022)" by simp
  with lo have ax: "0 < \<bar>x\<bar>" by linarith
  then have x0: "x \<noteq> 0" by auto
  have "(2::real) powi (- 1022) < 2 powi (?e + 1)"
    using lo floor_log2_bounds(2) [OF ax] by linarith
  then have "- 1022 < ?e + 1" by (rule two_powi_less_imp_less)
  then have e: "- 1022 \<le> ?e" by linarith
  then have "max (?e - 52) (- 1074) = ?e - 52" by linarith
  then have q: "f64_quantum x = ?q" by (simp only: f64_quantum_def)
  have qpos: "0 < ?q" by simp
  have "?q = 2 powi ?e / 2 ^ 52" by (simp add: power_int_diff)
  also have "\<dots> \<le> \<bar>x\<bar> / 2 ^ 52"
    using floor_log2_bounds(1) [OF ax] by (intro divide_right_mono) simp_all
  finally have qle: "?q \<le> \<bar>x\<bar> / 2 ^ 52" .
  define n where "n = round_half_even (x / ?q)"
  define v where "v = real_of_int n * ?q"
  have "\<bar>real_of_int n - x / ?q\<bar> \<le> 1 / 2" unfolding n_def by (rule round_half_even_error)
  then have "\<bar>real_of_int n - x / ?q\<bar> * ?q \<le> 1 / 2 * ?q"
    using qpos by (intro mult_right_mono) simp_all
  moreover have "\<bar>real_of_int n - x / ?q\<bar> * ?q = \<bar>v - x\<bar>"
  proof -
    have "\<bar>real_of_int n - x / ?q\<bar> * ?q = \<bar>(real_of_int n - x / ?q) * ?q\<bar>"
      using qpos by (simp add: abs_mult)
    also have "(real_of_int n - x / ?q) * ?q = v - x"
      using qpos by (simp add: v_def left_diff_distrib)
    finally show ?thesis .
  qed
  ultimately have err: "\<bar>v - x\<bar> \<le> ?q / 2" by simp
  with qle have err2: "\<bar>v - x\<bar> \<le> \<bar>x\<bar> / 2 ^ 53" by simp
  then have err3: "\<bar>v - x\<bar> \<le> \<bar>x\<bar> / 9007199254740992" by simp
  have pos: "0 < v" if "0 < x"
    using err3 that by linarith
  have neg: "v < 0" if "x < 0"
    using err3 that by linarith
  from pos neg x0 have v0: "v \<noteq> 0" by (cases "0 < x") auto
  have "\<bar>v\<bar> \<le> \<bar>x\<bar> + \<bar>x\<bar> / 9007199254740992" using err3 by linarith
  then have "\<bar>v\<bar> \<le> \<bar>x\<bar> + \<bar>x\<bar> / 2 ^ 53" by simp
  also have "\<dots> \<le> 2 powi 1023 + 2 powi 1023 / 2 ^ 53"
    using hi by (intro add_mono divide_right_mono) simp_all
  also have "\<dots> < 2 ^ 1024" by simp
  finally have small: "\<not> 2 ^ 1024 \<le> \<bar>v\<bar>" by simp
  have "f64_round x = Fin v"
    unfolding f64_round_def Let_def q using x0 small v0 by (simp add: v_def n_def)
  moreover have "v = real_of_int (round_half_even (x / ?q)) * ?q" by (simp add: v_def n_def)
  ultimately show ?thesis using err2 pos neg by blast
qed

lemma f64_round_normal:
  assumes "2 powi (- 1022) \<le> \<bar>x\<bar>" and "\<bar>x\<bar> \<le> 2 powi 1023"
  shows "\<exists>v. f64_round x = Fin v \<and> \<bar>v - x\<bar> \<le> \<bar>x\<bar> / 2 ^ 53
           \<and> (0 < x \<longrightarrow> 0 < v) \<and> (x < 0 \<longrightarrow> v < 0)"
  using f64_round_normal_value [OF assms] by blast

lemma f64_round_near:
  assumes "2 powi e \<le> \<bar>x\<bar>" and "\<bar>x\<bar> < 2 powi (e + 1)" and "- 1022 \<le> e" and "e \<le> 1022"
  shows "f64_round x = Fin (real_of_int (round_half_even (x / 2 powi (e - 52))) * 2 powi (e - 52))"
proof -
  have "(2::real) powi (- 1022) \<le> 2 powi e"
    using assms(3) by (intro power_int_increasing) simp_all
  with assms(1) have lo: "2 powi (- 1022) \<le> \<bar>x\<bar>" by linarith
  have "(2::real) powi (e + 1) \<le> 2 powi 1023"
    using assms(4) by (intro power_int_increasing) simp_all
  with assms(2) have hi: "\<bar>x\<bar> \<le> 2 powi 1023" by linarith
  from f64_round_normal_value [OF lo hi] floor_log2_eq [OF assms(1,2)]
  show ?thesis by auto
qed

lemma np_less_Fin [simp]: "np_less (Fin a) (Fin b) \<longleftrightarrow> a < b"
  by (simp add: np_less_def)

lemma np_le_Fin [simp]: "np_le (Fin a) (Fin b) \<longleftrightarrow> a \<le> b"
  by (auto simp add: np_le_def)

lemma np_greater_Fin [simp]: "np_greater (Fin a) (Fin b) \<longleftrightarrow> b < a"
  by (simp add: np_greater_def)

lemma np_less_NaN [simp]: "np_less v NaN = False" "np_less NaN v = False"
  by (cases v; simp add: np_less_def)+

lemma np_greater_NaN [simp]: "np_greater v NaN = False" "np_greater NaN v = False"
  by (simp_all add: np_greater_def)

lemma np_le_NaN [simp]: "np_le NaN v = False" "np_le v NaN = False"
  by (simp_all add: np_le_def)

lemma f64_round_dyadic:
  assumes "\<bar>m\<bar> < 2 ^ 53" and "j \<le> 1074"
  shows "f64_round (real_of_int m / 2 ^ j) = Fin (real_of_int m / 2 ^ j)"
proof -
  have "real_of_int m / 2 ^ j = real_of_int m * 2 powi (- int j)"
    by (simp add: power_int_minus field_simps)
  moreover have "f64_round (real_of_int m * 2 powi (- int j)) = Fin (real_of_int m * 2 powi (- int j))"
    using assms by (intro f64_round_exact) simp_all
  ultimately show ?thesis by simp
qed

lemma f64_round_int:
  assumes "\<bar>m\<bar> < 2 ^ 53"
  shows "f64_round (real_of_int m) = Fin (real_of_int m)"
  using f64_round_dyadic [OF assms, of 0] by simp

lemma f64_round_numeral [simp]:
  "(numeral n :: int) < 2 ^ 53 \<Longrightarrow> f64_round (numeral n) = Fin (numeral n)"
  using f64_round_int [of "numeral n"] by simp

lemma f64_round_one [simp]: "f64_round 1 = Fin 1"
  using f64_round_int [of 1] by simp

lemma f64_values:
  "f64_round (1 / 8) = Fin (1 / 8)"
  "f64_round (5 / 4) = Fin (5 / 4)"
  "f64_round (3 / 2) = Fin (3 / 2)"
  "f64_round (9 / 2) = Fin (9 / 2)"
  "f64_round (1 / 64) = Fin (1 / 64)"
  using f64_round_dyadic [of 1 3] f64_round_dyadic [of 5 2] f64_round_dyadic [of 3 1]
    f64_round_dyadic [of 9 1] f64_round_dyadic [of 1 6]
  by simp_all




lemma f64_sixth: "f64_round (1 / 6) = Fin (6004799503160661 / 2 ^ 55)"
  using f64_round_near [of "- 3" "1 / 6"]
  by (simp add: power_int_minus round_half_even_def Let_def)



section \<open>Facts about the arithmetic\<close>

lemma np_sub_Fin:
  "np_sub (Fin a) (Fin b) = (if a = b then Fin 0 else f64_round (a - b))"
  by (auto simp add: np_sub_def np_add_def signed_zero_def)

lemma np_div_Fin:
  "b \<noteq> 0 \<Longrightarrow> a \<noteq> 0 \<Longrightarrow> np_div (Fin a) (Fin b) = f64_round (a / b)"
  by (simp add: np_div_def f64_round_signed_def)

lemma np_mul_Fin:
  "a \<noteq> 0 \<Longrightarrow> b \<noteq> 0 \<Longrightarrow> np_mul (Fin a) (Fin b) = f64_round (a * b)"
  by (simp add: np_mul_def f64_round_signed_def)




lemma infer_rate_long:
  "2 \<le> length t \<Longrightarrow> infer_rate t = Inr (rate_of (Fin (t ! 1)) (Fin (t ! 0)))"
  by (auto simp add: infer_rate_def iloc_def py_bind_def)




section \<open>Sampling rate\<close>




section \<open>Window size\<close>

lemma np_mul_ten_normal:
  assumes "1 / 2 ^ 1000 \<le> \<bar>r\<bar>" and "\<bar>r\<bar> \<le> 2 ^ 1000"
  shows "\<exists>p. np_mul (Fin r) (Fin 10) = Fin p \<and> \<bar>p - r * 10\<bar> \<le> \<bar>r * 10\<bar> / 2 ^ 53"
proof -
  have "(0::real) < 1 / 2 ^ 1000" by simp
  with assms(1) have "0 < \<bar>r\<bar>" by linarith
  then have r0: "r \<noteq> 0" by auto
  have a: "\<bar>r * 10\<bar> = \<bar>r\<bar> * 10" by (simp add: abs_mult)
  have "(2::real) powi (- 1022) \<le> 1 / 2 ^ 1000" by (simp add: power_int_minus field_simps)
  with assms(1) have lo: "2 powi (- 1022) \<le> \<bar>r * 10\<bar>" unfolding a by linarith
  have "(2::real) ^ 1000 * 10 \<le> 2 powi 1023" by simp
  with assms(2) have hi: "\<bar>r * 10\<bar> \<le> 2 powi 1023" unfolding a by linarith
  from f64_round_normal [OF lo hi] r0 show ?thesis by (auto simp add: np_mul_Fin)
qed

lemma f64_three_tenths_times_ten:
  "np_mul (Fin (5404319552844595 / 2 ^ 54)) (Fin 10) = Fin 3"
  using f64_round_near [of 1 "5404319552844595 / 2 ^ 54 * 10"]
  by (simp add: np_mul_Fin power_int_minus round_half_even_def Let_def)

lemma f64_sixth_times_ten:
  "np_mul (Fin (6004799503160661 / 2 ^ 55)) (Fin 10) = Fin (3752999689475413 / 2 ^ 51)"
  using f64_round_near [of 0 "6004799503160661 / 2 ^ 55 * 10"]
  by (simp add: np_mul_Fin power_int_minus round_half_even_def Let_def)

text \<open>
  Claim C4 says the window is \<open>round (rate * 10)\<close>. The code takes \<^verbatim>\<open>int(rate * 10)\<close>,
  which truncates: timestamps six seconds apart give a rate just below \<open>1 / 6\<close> and a
  product just below \<open>10 / 6\<close>, truncated to 1 where rounding gives 2.
\<close>

theorem window_size_not_rounded:
  "py_bind (infer_rate [0, 6]) window_size_of = Inr 1 \<and> round (1 / (6 - 0) * 10 :: real) = 2"
proof -
  have "infer_rate [0, 6] = Inr (Fin (6004799503160661 / 2 ^ 55))"
    using f64_sixth by (simp add: infer_rate_long rate_of_def np_sub_Fin np_div_Fin)
  then have "py_bind (infer_rate [0, 6]) window_size_of = Inr 1"
    by (simp add: py_bind_def window_size_of_def f64_sixth_times_ten [simplified])
  moreover have "round (1 / (6 - 0) * 10 :: real) = 2" by (simp add: round_def)
  ultimately show ?thesis by simp
qed

text \<open>
  Claim C4, as the code has it: the window size is the \<^verbatim>\<open>float64\<close> product of the
  sampling rate and 10, truncated towards zero (the largest integer not above a product
  that is not negative, the smallest integer not below it otherwise). The product is
  rounded before it is truncated, and differs from the exact product by a relative error
  of at most \<open>2 ^ (- 53)\<close> for a rate between \<open>2 ^ (- 1000)\<close> and \<open>2 ^ 1000\<close> in
  magnitude. An infinite product raises \<^verbatim>\<open>OverflowError\<close>, and a rate that is not a
  number raises \<^verbatim>\<open>ValueError\<close>.
\<close>

theorem window_size_truncates:
  "(np_mul rate (Fin 10) = Fin p \<and> 0 \<le> p \<longrightarrow>
      (\<exists>w. window_size_of rate = Inr w \<and> 0 \<le> w \<and> of_int w \<le> p \<and> p < of_int w + 1))
   \<and> (np_mul rate (Fin 10) = Fin p \<and> p < 0 \<longrightarrow>
      (\<exists>w. window_size_of rate = Inr w \<and> w \<le> 0 \<and> p \<le> of_int w \<and> of_int w - 1 < p))
   \<and> (np_mul rate (Fin 10) = PInf \<or> np_mul rate (Fin 10) = NInf \<longrightarrow>
        window_size_of rate = Inl OverflowError)
   \<and> window_size_of PInf = Inl OverflowError
   \<and> window_size_of NaN = Inl ValueError
   \<and> (1 / 2 ^ 1000 \<le> \<bar>r\<bar> \<and> \<bar>r\<bar> \<le> 2 ^ 1000 \<longrightarrow>
        (\<exists>q. np_mul (Fin r) (Fin 10) = Fin q \<and> \<bar>q - r * 10\<bar> \<le> \<bar>r * 10\<bar> / 2 ^ 53))"
proof (intro conjI impI)
  show "\<exists>w. window_size_of rate = Inr w \<and> 0 \<le> w \<and> of_int w \<le> p \<and> p < of_int w + 1"
    if "np_mul rate (Fin 10) = Fin p \<and> 0 \<le> p"
    using that by (auto simp add: window_size_of_def; linarith)
  show "\<exists>w. window_size_of rate = Inr w \<and> w \<le> 0 \<and> p \<le> of_int w \<and> of_int w - 1 < p"
    if "np_mul rate (Fin 10) = Fin p \<and> p < 0"
    using that by (auto simp add: window_size_of_def; linarith)
  show "window_size_of rate = Inl OverflowError"
    if "np_mul rate (Fin 10) = PInf \<or> np_mul rate (Fin 10) = NInf"
    using that by (auto simp add: window_size_of_def)
  show "window_size_of PInf = Inl OverflowError"
    by (simp add: window_size_of_def np_mul_def signed_inf_def)
  show "window_size_of NaN = Inl ValueError"
    by (simp add: window_size_of_def np_mul_def)
  show "\<exists>q. np_mul (Fin r) (Fin 10) = Fin q \<and> \<bar>q - r * 10\<bar> \<le> \<bar>r * 10\<bar> / 2 ^ 53"
    if "1 / 2 ^ 1000 \<le> \<bar>r\<bar> \<and> \<bar>r\<bar> \<le> 2 ^ 1000"
    using that by (intro np_mul_ten_normal) simp_all
qed

theorem window_size_truncates_witness:
  "window_size_of (Fin (5404319552844595 / 2 ^ 54)) = Inr 3
   \<and> 5404319552844595 / 2 ^ 54 * 10 < (3::real)
   \<and> window_size_of (Fin (- (1 / 4))) = Inr (- 2)"
proof -
  have m: "np_mul (Fin (- (1 / 4))) (Fin 10) = Fin (- (5 / 2))"
    using f64_round_dyadic [of "- 5" 1] by (simp add: np_mul_Fin)
  have "window_size_of (Fin (5404319552844595 / 2 ^ 54)) = Inr 3"
    using window_size_truncates [of "Fin (5404319552844595 / 2 ^ 54)" 3]
    by (simp add: f64_three_tenths_times_ten [simplified] window_size_of_def)
  moreover have "window_size_of (Fin (- (1 / 4))) = Inr (- 2)"
    using window_size_truncates [of "Fin (- (1 / 4))" "- (5 / 2)"]
    by (simp add: m window_size_of_def)
  moreover have "5404319552844595 / 2 ^ 54 * 10 < (3::real)" by simp
  ultimately show ?thesis by simp
qed

section \<open>Variation coefficient\<close>








section \<open>Rolling standard deviation\<close>

lemma nobs_add_var: "nobs (add_var v st) = nobs st + 1"
  by (simp add: add_var_def Let_def)

lemma nobs_remove_var: "nobs (remove_var v st) = nobs st - 1"
  by (simp add: remove_var_def Let_def)

lemma nobs_fold_add: "nobs (fold (\<lambda>j. add_var (f j)) js st) = nobs st + int (length js)"
  by (induction js arbitrary: st) (simp_all add: nobs_add_var)

lemma nobs_fold_remove: "nobs (fold (\<lambda>j. remove_var (f j)) js st) = nobs st - int (length js)"
  by (induction js arbitrary: st) (simp_all add: nobs_remove_var)

lemma nobs_add_range:
  "0 \<le> a \<Longrightarrow> a \<le> b \<Longrightarrow> nobs (add_range values a b st) = nobs st + (b - a)"
  by (simp add: add_range_def nobs_fold_add)

lemma nobs_remove_range:
  "0 \<le> a \<Longrightarrow> a \<le> b \<Longrightarrow> nobs (remove_range values a b st) = nobs st - (b - a)"
  by (simp add: remove_range_def nobs_fold_remove)

lemma nobs_first_window:
  "0 \<le> s \<Longrightarrow> s \<le> e \<Longrightarrow> nobs (first_window values s e) = e - s"
  by (simp add: first_window_def nobs_add_range)

lemma bounds_pair: "get_window_bounds n w i = (win_start n w i, win_stop n w i)"
  by (simp add: win_start_def win_stop_def)

lemma win_bounds_facts:
  assumes "0 \<le> w"
  shows "0 \<le> win_start n w i" and "win_start n w i \<le> win_stop n w i"
    and "win_start n w i \<le> win_start n w (Suc i)"
    and "win_stop n w i \<le> win_stop n w (Suc i)"
    and "win_stop n w i - win_start n w i \<le> w"
  using assms
  by (auto simp add: win_start_def win_stop_def get_window_bounds_def clip_def Let_def
      min_def max_def)

lemma roll_state_Suc:
  "roll_state values w (Suc i) =
     (if win_stop (length values) w i \<le> win_start (length values) w (Suc i)
      then first_window values (win_start (length values) w (Suc i))
             (win_stop (length values) w (Suc i))
      else add_range values (win_stop (length values) w i) (win_stop (length values) w (Suc i))
             (remove_range values (win_start (length values) w i)
                (win_start (length values) w (Suc i)) (roll_state values w i)))"
  by (simp add: bounds_pair)

lemma roll_state_0:
  "roll_state values w 0 =
     first_window values (win_start (length values) w 0) (win_stop (length values) w 0)"
  by (simp add: bounds_pair)

lemma nobs_roll_state:
  assumes "0 \<le> w"
  shows "nobs (roll_state values w i)
           = win_stop (length values) w i - win_start (length values) w i"
proof (induction i)
  case 0
  show ?case
    unfolding roll_state_0
    using win_bounds_facts(1,2) [OF assms] by (rule nobs_first_window)
next
  case (Suc i)
  let ?n = "length values"
  note f = win_bounds_facts [OF assms, of ?n]
  show ?case
  proof (cases "win_stop ?n w i \<le> win_start ?n w (Suc i)")
    case True
    then show ?thesis
      unfolding roll_state_Suc using f(1,2) [of "Suc i"] by (simp add: nobs_first_window)
  next
    case False
    have "0 \<le> win_stop ?n w i" using f(1,2) [of i] by linarith
    then have "nobs (roll_state values w (Suc i))
        = nobs (roll_state values w i) - (win_start ?n w (Suc i) - win_start ?n w i)
          + (win_stop ?n w (Suc i) - win_stop ?n w i)"
      unfolding roll_state_Suc using False f(1) [of i] f(3,4) [of i]
      by (simp add: nobs_add_range nobs_remove_range)
    with Suc show ?thesis by simp
  qed
qed

lemma zsqrt_NaN: "zsqrt NaN = NaN"
  by (simp add: zsqrt_def)

lemma zsqrt_zero: "zsqrt (Fin 0) = Fin 0"
  by (simp add: zsqrt_def f64_round_def)

lemma roll_std_at_short:
  assumes "0 \<le> w"
    and "win_stop (length xs) w i - win_start (length xs) w i < max w 2"
  shows "roll_std_at xs w i = NaN"
  using assms nobs_roll_state [OF assms(1), of xs i]
  by (auto simp add: roll_std_at_def calc_var_def zsqrt_NaN)

lemma roll_std_at_small:
  assumes "0 \<le> w" and "w < 2"
  shows "roll_std_at xs w i = NaN"
proof (rule roll_std_at_short [OF assms(1)])
  from win_bounds_facts(5) [OF assms(1), of "length xs" i] assms(2)
  show "win_stop (length xs) w i - win_start (length xs) w i < max w 2" by simp
qed


lemma half_split: "w div 2 + (w - 1) div 2 = (w::int) - 1"
  by presburger

lemma window_full:
  assumes "1 \<le> w" and "window_fits n w i"
  shows "win_stop n w i - win_start n w i = w"
proof -
  have h: "w div 2 + (w - 1) div 2 = w - 1" by (rule half_split)
  from assms h have "get_window_bounds n w i = (int i - w div 2, int i + 1 + (w - 1) div 2)"
    by (auto simp add: get_window_bounds_def window_fits_def clip_def Let_def)
  then show ?thesis using h by (simp add: win_start_def win_stop_def)
qed

lemma window_short:
  assumes "1 \<le> w" and "\<not> window_fits n w i" and "i < n"
  shows "win_stop n w i - win_start n w i < w"
proof -
  have h: "w div 2 + (w - 1) div 2 = w - 1" by (rule half_split)
  from assms h show ?thesis
    by (auto simp add: win_start_def win_stop_def get_window_bounds_def window_fits_def
        clip_def Let_def min_def max_def)
qed

lemma roll_std_at_edge:
  assumes "1 \<le> w" and "\<not> window_fits (length xs) w i" and "i < length xs"
  shows "roll_std_at xs w i = NaN"
proof (rule roll_std_at_short)
  show "0 \<le> w" using assms(1) by simp
  from window_short [OF assms]
  show "win_stop (length xs) w i - win_start (length xs) w i < max w 2" by simp
qed

text \<open>A window longer than the series leaves no row with a full window.\<close>

lemma rolling_longer_window:
  assumes "int (length xs) < w" and "w < 2 ^ 63"
  shows "rolling_center_std xs w = Inr (replicate (length xs) NaN)"
proof -
  have h: "w div 2 + (w - 1) div 2 = w - 1" by (rule half_split)
  have "roll_std_at xs w i = NaN" if "i < length xs" for i
  proof (rule roll_std_at_edge)
    show "1 \<le> w" using assms(1) by simp
    show "\<not> window_fits (length xs) w i"
      using assms(1) h by (auto simp add: window_fits_def)
    show "i < length xs" by (rule that)
  qed
  then have "map (roll_std_at xs w) [0..<length xs] = replicate (length xs) NaN"
    by (intro nth_equalityI) simp_all
  with assms show ?thesis by (simp add: rolling_center_std_def)
qed

lemma run_covers_add: "run_covers c st \<Longrightarrow> run_covers c (add_var c st)"
  by (simp add: run_covers_def add_var_def Let_def)

lemma run_covers_remove: "run_covers c st \<Longrightarrow> run_covers c (remove_var v st)"
  by (simp add: run_covers_def remove_var_def Let_def)

lemma run_covers_fold_add:
  assumes "\<And>j. j \<in> set js \<Longrightarrow> f j = c" and "run_covers c st"
  shows "run_covers c (fold (\<lambda>j. add_var (f j)) js st)"
  using assms
proof (induction js arbitrary: st)
  case Nil
  then show ?case by simp
next
  case (Cons j js)
  have "f j = c" by (rule Cons.prems(1)) simp
  with Cons.prems(2) have "run_covers c (add_var (f j) st)" by (simp add: run_covers_add)
  moreover have "\<And>k. k \<in> set js \<Longrightarrow> f k = c" by (rule Cons.prems(1)) simp
  ultimately have "run_covers c (fold (\<lambda>j. add_var (f j)) js (add_var (f j) st))"
    by (intro Cons.IH)
  then show ?case by simp
qed

lemma run_covers_fold_remove:
  "run_covers c st \<Longrightarrow> run_covers c (fold (\<lambda>j. remove_var (f j)) js st)"
  by (induction js arbitrary: st) (simp_all add: run_covers_remove)

lemma run_covers_add_range:
  assumes c: "\<And>j. j < length values \<Longrightarrow> values ! j = c"
    and "b \<le> int (length values)" and "run_covers c st"
  shows "run_covers c (add_range values a b st)"
  unfolding add_range_def
proof (rule run_covers_fold_add)
  show "values ! j = c" if "j \<in> set [nat a..<nat b]" for j
  proof (rule c)
    from that have "j < nat b" by simp
    with assms(2) show "j < length values" by linarith
  qed
  show "run_covers c st" by (rule assms(3))
qed

lemma run_covers_first_window:
  assumes c: "\<And>j. j < length values \<Longrightarrow> values ! j = c"
    and "0 \<le> s" and "s < int (length values)" and "e \<le> int (length values)"
  shows "run_covers c (first_window values s e)"
  unfolding first_window_def
proof (rule run_covers_add_range [OF c assms(4)])
  from assms(2,3) have "nat s < length values" by linarith
  then have "values ! nat s = c" by (rule c)
  then show "run_covers c \<lparr> nobs = 0, mean_x = Fin 0, ssqdm_x = Fin 0,
      compensation_add = Fin 0, compensation_remove = Fin 0,
      num_consecutive_same_value = 0, prev_value = values ! nat s \<rparr>"
    by (simp add: run_covers_def)
qed (assumption)

lemma win_bounds_inside:
  assumes "1 \<le> w" and "i < n"
  shows "win_start n w i < int n" and "win_stop n w i \<le> int n"
proof -
  have "(w - 1) div 2 < w" using assms(1) by linarith
  with assms show "win_start n w i < int n"
    by (auto simp add: win_start_def get_window_bounds_def clip_def Let_def min_def max_def)
  show "win_stop n w i \<le> int n"
    by (simp add: win_stop_def get_window_bounds_def clip_def Let_def)
qed

lemma run_covers_roll_state:
  assumes c: "\<And>j. j < length values \<Longrightarrow> values ! j = c" and w: "1 \<le> w"
  shows "i < length values \<Longrightarrow> run_covers c (roll_state values w i)"
proof (induction i)
  case 0
  have w0: "0 \<le> w" using w by simp
  show ?case
    unfolding roll_state_0
    using c win_bounds_facts(1) [OF w0] win_bounds_inside [OF w 0]
    by (rule run_covers_first_window)
next
  case (Suc i)
  let ?n = "length values"
  have w0: "0 \<le> w" using w by simp
  from Suc.prems have i: "i < ?n" by simp
  show ?case
  proof (cases "win_stop ?n w i \<le> win_start ?n w (Suc i)")
    case True
    have "run_covers c (first_window values (win_start ?n w (Suc i)) (win_stop ?n w (Suc i)))"
      using c win_bounds_facts(1) [OF w0] win_bounds_inside [OF w Suc.prems]
      by (rule run_covers_first_window)
    with True show ?thesis unfolding roll_state_Suc by simp
  next
    case False
    have "run_covers c (roll_state values w i)" using i by (rule Suc.IH)
    then have "run_covers c (remove_range values (win_start ?n w i) (win_start ?n w (Suc i))
        (roll_state values w i))"
      unfolding remove_range_def by (rule run_covers_fold_remove)
    then have "run_covers c (add_range values (win_stop ?n w i) (win_stop ?n w (Suc i))
        (remove_range values (win_start ?n w i) (win_start ?n w (Suc i))
          (roll_state values w i)))"
      using c win_bounds_inside(2) [OF w Suc.prems] by (intro run_covers_add_range)
    with False show ?thesis unfolding roll_state_Suc by simp
  qed
qed

lemma roll_std_at_const:
  assumes "2 \<le> w" and "window_fits (length xs) w i" and "\<forall>x\<in>set xs. x = c"
  shows "roll_std_at xs w i = Fin 0"
proof -
  have w1: "1 \<le> w" and w0: "0 \<le> w" using assms(1) by simp_all
  from assms(1,2) have i: "i < length xs" by (auto simp add: window_fits_def)
  have c: "xs ! j = c" if "j < length xs" for j
    using assms(3) that nth_mem by blast
  have n: "nobs (roll_state xs w i) = w"
    using nobs_roll_state [OF w0, of xs i] window_full [OF w1 assms(2)] by simp
  from run_covers_roll_state [OF c w1 i]
  have "nobs (roll_state xs w i) \<le> num_consecutive_same_value (roll_state xs w i)"
    by (simp add: run_covers_def)
  with n assms(1) have "calc_var (max w 1) 1 (roll_state xs w i) = Fin 0"
    by (simp add: calc_var_def)
  then show ?thesis by (simp add: roll_std_at_def zsqrt_zero)
qed

text \<open>
  Claim C8 says that a window of fewer than two samples fails with a dedicated window
  error and returns no sequence. Samples eight seconds apart give a window of one sample,
  and with it pandas returns a sequence, every entry of it NaN.
\<close>

theorem rolling_window_one_returns:
  "py_bind (infer_rate [0, 8, 16]) window_size_of = Inr 1
   \<and> rolling_center_std [1, 2, 3] 1 = Inr [NaN, NaN, NaN]"
proof -
  have "infer_rate [0, 8, 16] = Inr (Fin (1 / 8))"
    by (simp add: infer_rate_long rate_of_def np_sub_Fin np_div_Fin f64_values)
  moreover have "window_size_of (Fin (1 / 8)) = Inr 1"
    by (simp add: window_size_of_def np_mul_Fin f64_values)
  ultimately have "py_bind (infer_rate [0, 8, 16]) window_size_of = Inr 1"
    by (simp add: py_bind_def)
  moreover have "rolling_center_std [1, 2, 3] 1 = Inr [NaN, NaN, NaN]"
    by (simp add: rolling_center_std_def roll_std_at_small upt_conv_Cons)
  ultimately show ?thesis by simp
qed

text \<open>
  Claim C8, as the code has it: a window of 0 or 1 samples returns a sequence of the
  length of the input whose entries are all undefined; only a negative window fails, with
  the \<^verbatim>\<open>ValueError\<close> of pandas' own validation.
\<close>

theorem rolling_small_window:
  "w < 2 \<longrightarrow> rolling_center_std xs w =
     (if w < 0 then Inl ValueError else Inr (replicate (length xs) NaN))"
proof (intro impI)
  assume w: "w < 2"
  show "rolling_center_std xs w =
     (if w < 0 then Inl ValueError else Inr (replicate (length xs) NaN))"
  proof (cases "w < 0")
    case True
    then show ?thesis by (simp add: rolling_center_std_def)
  next
    case False
    with w have "map (roll_std_at xs w) [0..<length xs] = replicate (length xs) NaN"
      by (intro nth_equalityI) (simp_all add: roll_std_at_small)
    with False w show ?thesis by (simp add: rolling_center_std_def)
  qed
qed

theorem rolling_small_window_witness:
  "rolling_center_std [1, 2] 0 = Inr [NaN, NaN]
   \<and> rolling_center_std [1, 2] (- 1) = Inl ValueError"
  using rolling_small_window [of 0 "[1, 2]"] rolling_small_window [of "- 1" "[1, 2]"]
  by (simp add: numeral_2_eq_2)

section \<open>Shape of the rolling indicator\<close>

lemma rolling_rows:
  assumes "0 \<le> w" and "w < 2 ^ 63"
  shows "rolling_center_std xs w = Inr (map (roll_std_at xs w) [0..<length xs])"
  using assms by (simp add: rolling_center_std_def)

text \<open>
  Claim C3 says that every position within half a window of either edge is undefined.
  With the window of 4 rows on 6 samples the row before the last, one step from the right
  edge, has a value: pandas sets an even window one row to the left of the centre, so only
  \<open>(w - 1) div 2\<close> rows at the end lack a full window.
\<close>

theorem rolling_even_window_right_edge:
  "rolling_center_std [7, 7, 7, 7, 7, 7] 4 = Inr [NaN, NaN, Fin 0, Fin 0, Fin 0, NaN]"
proof -
  let ?xs = "[7, 7, 7, 7, 7, 7] :: real list"
  have c: "\<forall>x\<in>set ?xs. x = 7" by simp
  have "roll_std_at ?xs 4 0 = NaN" "roll_std_at ?xs 4 1 = NaN" "roll_std_at ?xs 4 5 = NaN"
    by (rule roll_std_at_edge; simp add: window_fits_def)+
  moreover have "roll_std_at ?xs 4 2 = Fin 0" "roll_std_at ?xs 4 3 = Fin 0"
    "roll_std_at ?xs 4 4 = Fin 0"
    using c by (rule roll_std_at_const [rotated 2]; simp add: window_fits_def)+
  ultimately show ?thesis
    by (simp add: rolling_rows upt_conv_Cons eval_nat_numeral)
qed

text \<open>
  Claim C3, as the code has it: for a window of at least 2 rows that fits a signed 64-bit
  integer, the result has the length of the input; the entry of each of the first
  \<open>w div 2\<close> rows and of the last \<open>(w - 1) div 2\<close> rows is undefined (NaN, not zero);
  and on a constant input the entry of every other row is 0. A window of \<open>2 ^ 63\<close> rows
  or more raises \<^verbatim>\<open>OverflowError\<close>.
\<close>

theorem rolling_center_std_shape:
  "(2 \<le> w \<and> w < 2 ^ 63 \<longrightarrow>
     (\<exists>r. rolling_center_std xs w = Inr r \<and> length r = length xs
        \<and> (\<forall>i<length xs.
              (int i < w div 2 \<or> int (length xs) \<le> int i + (w - 1) div 2 \<longrightarrow> r ! i = NaN)
              \<and> (w div 2 \<le> int i \<and> int i + (w - 1) div 2 < int (length xs)
                   \<and> (\<forall>x\<in>set xs. x = c) \<longrightarrow> r ! i = Fin 0))))
   \<and> (2 ^ 63 \<le> w \<longrightarrow> rolling_center_std xs w = Inl OverflowError)"
proof (intro conjI impI)
  assume w: "2 \<le> w \<and> w < 2 ^ 63"
  let ?r = "map (roll_std_at xs w) [0..<length xs]"
  have "rolling_center_std xs w = Inr ?r" using w by (intro rolling_rows) simp_all
  moreover have "length ?r = length xs" by simp
  moreover have "\<forall>i<length xs.
              (int i < w div 2 \<or> int (length xs) \<le> int i + (w - 1) div 2 \<longrightarrow> ?r ! i = NaN)
              \<and> (w div 2 \<le> int i \<and> int i + (w - 1) div 2 < int (length xs)
                   \<and> (\<forall>x\<in>set xs. x = c) \<longrightarrow> ?r ! i = Fin 0)"
  proof (intro allI impI conjI)
    fix i assume i: "i < length xs"
    show "?r ! i = NaN"
      if "int i < w div 2 \<or> int (length xs) \<le> int i + (w - 1) div 2"
    proof -
      from that have "\<not> window_fits (length xs) w i" by (auto simp add: window_fits_def)
      with w i have "roll_std_at xs w i = NaN" by (intro roll_std_at_edge) simp_all
      with i show ?thesis by simp
    qed
    show "?r ! i = Fin 0"
      if a: "w div 2 \<le> int i \<and> int i + (w - 1) div 2 < int (length xs)
                   \<and> (\<forall>x\<in>set xs. x = c)"
    proof -
      from a have "window_fits (length xs) w i" by (simp add: window_fits_def)
      moreover from a have "\<forall>x\<in>set xs. x = c" by blast
      ultimately have "roll_std_at xs w i = Fin 0"
        using w by (intro roll_std_at_const [of w xs i c]) simp_all
      with i show ?thesis by simp
    qed
  qed
  ultimately show "\<exists>r. rolling_center_std xs w = Inr r \<and> length r = length xs
        \<and> (\<forall>i<length xs.
              (int i < w div 2 \<or> int (length xs) \<le> int i + (w - 1) div 2 \<longrightarrow> r ! i = NaN)
              \<and> (w div 2 \<le> int i \<and> int i + (w - 1) div 2 < int (length xs)
                   \<and> (\<forall>x\<in>set xs. x = c) \<longrightarrow> r ! i = Fin 0))"
    by blast
next
  assume "2 ^ 63 \<le> w"
  then show "rolling_center_std xs w = Inl OverflowError"
    by (simp add: rolling_center_std_def)
qed

theorem rolling_center_std_shape_witness:
  "rolling_center_std [5, 5, 5, 5, 5] 3 = Inr [NaN, Fin 0, Fin 0, Fin 0, NaN]
   \<and> rolling_center_std [5, 5, 5, 5, 5] (2 ^ 63) = Inl OverflowError"
proof -
  let ?xs = "[5, 5, 5, 5, 5] :: real list"
  note t = rolling_center_std_shape [of 3 ?xs 5]
  from t obtain r where r: "rolling_center_std ?xs 3 = Inr r" "length r = length ?xs"
    and ri: "\<forall>i<length ?xs.
              (int i < 3 div 2 \<or> int (length ?xs) \<le> int i + (3 - 1) div 2 \<longrightarrow> r ! i = NaN)
              \<and> (3 div 2 \<le> int i \<and> int i + (3 - 1) div 2 < int (length ?xs)
                   \<and> (\<forall>x\<in>set ?xs. x = 5) \<longrightarrow> r ! i = Fin 0)"
    by auto
  have "r ! 0 = NaN" using ri [rule_format, of 0] by simp
  moreover have "r ! 1 = Fin 0" using ri [rule_format, of 1] by simp
  moreover have "r ! 2 = Fin 0" using ri [rule_format, of 2] by simp
  moreover have "r ! 3 = Fin 0" using ri [rule_format, of 3] by simp
  moreover have "r ! 4 = NaN" using ri [rule_format, of 4] by simp
  ultimately have "r = [NaN, Fin 0, Fin 0, Fin 0, NaN]"
    using r(2) by (intro nth_equalityI) (auto simp add: less_Suc_eq numeral_eq_Suc)
  with r(1) have "rolling_center_std ?xs 3 = Inr [NaN, Fin 0, Fin 0, Fin 0, NaN]" by simp
  moreover have "rolling_center_std ?xs (2 ^ 63) = Inl OverflowError"
    using rolling_center_std_shape [of "2 ^ 63" ?xs 5] by simp
  ultimately show ?thesis by simp
qed

section \<open>What the analysis returns\<close>

lemma np_add_Fin:
  "a + b \<noteq> 0 \<Longrightarrow> np_add (Fin a) (Fin b) = f64_round (a + b)"
  by (simp add: np_add_def)

text \<open>The entries of the result, read off the data frame.\<close>

lemma analysis_app_fields:
  assumes "analyze_gluten_development_app welch df = Inr a"
  shows "total_time a = series_max (column time df)"
    and "mean_gforce a = series_mean (column gFTotal df)"
    and "std_gforce a = series_std (column gFTotal df)"
    and "num_peaks a = length (find_peaks (column gFTotal df)
           (peak_height (series_mean (column gFTotal df)) (series_std (column gFTotal df))))"
    and "infer_rate (column time df) = Inr (sampling_rate a)"
    and "py_bind (window_size_of (sampling_rate a)) (rolling_center_std (column gFTotal df))
           = Inr (rolling_std a)"
    and "\<exists>fs ps. welch (column gFTotal df) (sampling_rate a) 1024 = Inr (fs, ps)
            \<and> dominant_freq_of fs ps = Inr (dominant_freq a)"
  using assms
  by (auto simp add: analyze_gluten_development_app_def py_bind_def Let_def
      split: sum.splits prod.splits)

lemma analysis_simple_fields:
  assumes "analyze_gluten_development_simple welch df = Inr a"
  shows "total_time a = series_max (column time df)"
    and "mean_gforce a = series_mean (column gFTotal df)"
    and "std_gforce a = series_std (column gFTotal df)"
    and "num_peaks a = length (find_peaks (column gFTotal df)
           (peak_height (series_mean (column gFTotal df)) (series_std (column gFTotal df))))"
    and "infer_rate (column time df) = Inr (sampling_rate a)"
    and "py_bind (window_size_of (sampling_rate a)) (rolling_center_std (column gFTotal df))
           = Inr (rolling_std a)"
    and "welch (column gFTotal df) (sampling_rate a) 1024 = Inr (freqs a, psd a)"
    and "dominant_freq_of (freqs a) (psd a) = Inr (dominant_freq a)"
  using assms
  by (auto simp add: analyze_gluten_development_simple_def py_bind_def Let_def
      split: sum.splits prod.splits)


text \<open>The analysis of the example recordings.\<close>

lemma example_columns:
  "column time example_frame = [0, 1, 2, 3, 4]"
  "column gFTotal example_frame = [0, 4, 7, 4, 0]"
  "column time example_pair = [0, 1]"
  "column gFTotal example_pair = [1, 3]"
  by (simp_all add: column_def example_frame_def example_pair_def)

lemma example_statistics:
  "series_max [0, 1, 2, 3, 4] = Fin 4"
  "series_mean [0, 4, 7, 4, 0] = Fin 3"
  "series_std [0, 4, 7, 4, 0] = Fin 3"
  "series_max [0, 1] = Fin 1"
  "series_mean [1, 3] = Fin 2"
  "series_std [1, 3] = Fin (sqrt 2)"
  by (simp_all add: series_max_def series_mean_def mean_of_def series_std_def std_ddof1_def
      sum_sq_dev_def)

lemma example_peaks:
  "find_peaks [0, 4, 7, 4, 0] (Fin (9 / 2)) = [2]"
  "find_peaks [1, 3] h = []"
  by (simp_all add: find_peaks_def local_maxima_1d_def local_maxima_from.simps
      plateau_end.simps Let_def)

lemma example_rates:
  "infer_rate [0, 1, 2, 3, 4] = Inr (Fin 1)"
  "infer_rate [0, 1] = Inr (Fin 1)"
  "window_size_of (Fin 1) = Inr 10"
  by (simp_all add: infer_rate_long rate_of_def np_sub_Fin np_div_Fin window_size_of_def
      np_mul_Fin)

lemma example_rolling:
  "rolling_center_std [0, 4, 7, 4, 0] 10 = Inr [NaN, NaN, NaN, NaN, NaN]"
  "rolling_center_std [1, 3] 10 = Inr [NaN, NaN]"
  using rolling_longer_window [of "[0, 4, 7, 4, 0]" 10] rolling_longer_window [of "[1, 3]" 10]
  by (simp_all add: numeral_eq_Suc)

lemma example_dominant: "dominant_freq_of [0, 1 / 5, 2 / 5] [1, 6, 6] = Inr (1 / 5)"
  by (simp add: dominant_freq_of_def np_argmax_def np_getitem_def py_bind_def)

lemma example_height: "peak_height (Fin 3) (Fin 3) = Fin (9 / 2)"
  by (simp add: peak_height_def np_mul_Fin np_add_Fin f64_values)

lemma example_run_app:
  "analyze_gluten_development_app example_welch example_frame =
     Inr \<lparr> total_time = Fin 4, mean_gforce = Fin 3, std_gforce = Fin 3, num_peaks = 1,
           sampling_rate = Fin 1, dominant_freq = 1 / 5,
           rolling_std = [NaN, NaN, NaN, NaN, NaN] \<rparr>"
  by (simp add: analyze_gluten_development_app_def example_columns example_statistics
      example_peaks example_rates example_rolling example_dominant example_height
      example_welch_def py_bind_def Let_def)

lemma example_run_simple:
  "analyze_gluten_development_simple example_welch example_frame =
     Inr \<lparr> total_time = Fin 4, mean_gforce = Fin 3, std_gforce = Fin 3, num_peaks = 1,
           sampling_rate = Fin 1, dominant_freq = 1 / 5,
           rolling_std = [NaN, NaN, NaN, NaN, NaN],
           freqs = [0, 1 / 5, 2 / 5], psd = [1, 6, 6] \<rparr>"
  by (simp add: analyze_gluten_development_simple_def example_columns example_statistics
      example_peaks example_rates example_rolling example_dominant example_height
      example_welch_def py_bind_def Let_def)



text \<open>
  The recording of five samples is too short for the spectrogram: both programs stop
  there, before they look at the rolling indicator.
\<close>

lemma example_frame_stops:
  "main_app example_welch example_frame = Inl ValueError"
  "main_simple example_welch example_frame = Inl ValueError"
  by (simp_all add: main_app_def main_simple_def example_run_app example_run_simple
      plot_spectrogram_def create_analysis_plots_def create_spectrogram_def example_columns
      py_bind_def)

text \<open>The recording of 600 samples.\<close>

lemma example_recording_length: "length (column c example_recording) = 600"
  by (simp add: column_def example_recording_def)

lemma example_recording_time:
  "column time example_recording ! 0 = 0" "column time example_recording ! Suc 0 = 1 / 64"
  by (simp_all add: column_def example_recording_def)

lemma example_recording_rate: "infer_rate (column time example_recording) = Inr (Fin 64)"
  by (simp add: infer_rate_long example_recording_length example_recording_time rate_of_def
      np_sub_Fin np_div_Fin f64_values)

lemma example_recording_window: "window_size_of (Fin 64) = Inr 640"
  by (simp add: window_size_of_def np_mul_Fin)

lemma example_recording_rolling:
  "rolling_center_std (column gFTotal example_recording) 640 = Inr (replicate 600 NaN)"
  using rolling_longer_window [of "column gFTotal example_recording" 640]
  by (simp add: example_recording_length)

lemma example_recording_spectrogram:
  "create_spectrogram (column gFTotal example_recording) rate = Inr ()"
  by (simp add: create_spectrogram_def example_recording_length)

lemma example_recording_run_app:
  "\<exists>a. analyze_gluten_development_app example_welch example_recording = Inr a
     \<and> sampling_rate a = Fin 64 \<and> rolling_std a = replicate 600 NaN"
  by (simp add: analyze_gluten_development_app_def example_recording_rate
      example_recording_window example_recording_rolling example_dominant
      example_welch_def py_bind_def Let_def)

lemma example_recording_run_simple:
  "\<exists>a. analyze_gluten_development_simple example_welch example_recording = Inr a
     \<and> sampling_rate a = Fin 64 \<and> rolling_std a = replicate 600 NaN"
  by (simp add: analyze_gluten_development_simple_def example_recording_rate
      example_recording_window example_recording_rolling example_dominant
      example_welch_def py_bind_def Let_def)

section \<open>High-activity periods\<close>

lemma dropna_all_nan: "set s \<subseteq> {NaN} \<Longrightarrow> dropna s = []"
  by (induction s) (auto simp add: dropna_def)

lemma quantile_all_nan: "set s \<subseteq> {NaN} \<Longrightarrow> quantile s q = NaN"
  by (simp add: quantile_def dropna_all_nan np_sort_def)

lemma no_activity:
  assumes "set (rolling_std a) \<subseteq> {NaN}"
  shows "high_activity_threshold a = NaN" and "high_activity_simple a = 0"
    and "high_activity_app a = NoHighActivity"
  using assms
  by (simp_all add: quantile_all_nan high_activity_threshold_def high_activity_simple_def
      high_activity_app_def high_activity_mask_def count_true_def list_ex_iff)

text \<open>
  Claim C7 says that a rolling indicator with no defined value makes the 75th percentile
  fail with a dedicated error. The code raises nothing: on the recording of 600 samples,
  long enough for the spectrogram and shorter than the window of 640 samples, the
  indicator is NaN throughout, \<^verbatim>\<open>quantile\<close> of it is NaN, every comparison with NaN is
  false; the script counts 0 high-activity points and the app reports that it detected
  none.
\<close>

theorem no_activity_data_silent:
  "map_sum id rolling_std
       (analyze_gluten_development_simple example_welch example_recording)
     = Inr (replicate 600 NaN)
   \<and> map_sum id high_activity_threshold
         (analyze_gluten_development_simple example_welch example_recording) = Inr NaN
   \<and> map_sum id fst (main_simple example_welch example_recording) = Inr 0
   \<and> map_sum id fst (main_app example_welch example_recording) = Inr NoHighActivity"
proof -
  obtain s where s: "analyze_gluten_development_simple example_welch example_recording = Inr s"
    "sampling_rate s = Fin 64" "rolling_std s = replicate 600 NaN"
    using example_recording_run_simple by blast
  obtain a where a: "analyze_gluten_development_app example_welch example_recording = Inr a"
    "sampling_rate a = Fin 64" "rolling_std a = replicate 600 NaN"
    using example_recording_run_app by blast
  have ns: "set (rolling_std s) \<subseteq> {NaN}" and na: "set (rolling_std a) \<subseteq> {NaN}"
    by (simp_all add: s(3) a(3))
  have "map_sum id fst (main_simple example_welch example_recording) = Inr 0"
    by (simp add: main_simple_def s(1) create_analysis_plots_def
        example_recording_spectrogram no_activity(2) [OF ns] py_bind_def)
  moreover have "map_sum id fst (main_app example_welch example_recording)
      = Inr NoHighActivity"
    by (simp add: main_app_def a(1) plot_spectrogram_def example_recording_spectrogram
        example_welch_def no_activity(3) [OF na] py_bind_def)
  ultimately show ?thesis
    by (simp add: s(1,3) no_activity(1) [OF ns])
qed

text \<open>
  Claim C7, as the code has it: when the rolling indicator holds no defined value, the
  75th percentile is NaN, no entry exceeds it, the count of high-activity points is 0 and
  the app reports that no high-activity period was detected; no error is raised.
\<close>

theorem no_activity_data_counts_zero:
  "set (rolling_std a) \<subseteq> {NaN} \<longrightarrow>
     high_activity_threshold a = NaN
     \<and> high_activity_simple a = 0
     \<and> high_activity_app a = NoHighActivity"
  using no_activity [of a] by blast

theorem no_activity_data_counts_zero_witness:
  "high_activity_threshold (example_analysis (Fin 1) (Fin 1)) = NaN
   \<and> high_activity_simple (example_analysis (Fin 1) (Fin 1)) = 0
   \<and> high_activity_app (example_analysis (Fin 1) (Fin 1)) = NoHighActivity"
  using no_activity_data_counts_zero [of "example_analysis (Fin 1) (Fin 1)"]
  by (simp add: example_analysis_def)

section \<open>The two entry points\<close>

text \<open>
  Claim C9: on every series the two copies of \<^verbatim>\<open>analyze_gluten_development\<close> either both
  succeed, with equal values in the seven entries they share, or both fail with the same
  error.
\<close>

theorem pipelines_agree:
  "(case (analyze_gluten_development_app welch df,
          analyze_gluten_development_simple welch df) of
      (Inr a, Inr s) \<Rightarrow>
         total_time s = total_time a \<and> mean_gforce s = mean_gforce a
         \<and> std_gforce s = std_gforce a \<and> num_peaks s = num_peaks a
         \<and> sampling_rate s = sampling_rate a \<and> dominant_freq s = dominant_freq a
         \<and> rolling_std s = rolling_std a
    | (Inl e, Inl e') \<Rightarrow> e = e'
    | _ \<Rightarrow> False)"
  by (simp add: analyze_gluten_development_app_def analyze_gluten_development_simple_def
      py_bind_def Let_def split: sum.splits prod.splits)

section \<open>Dominant frequency\<close>

lemma argmax_scan_spec:
  assumes "best < length pre" and "pre ! best = mx"
    and "\<forall>j<length pre. pre ! j \<le> mx" and "\<forall>j<best. pre ! j < mx"
  shows "argmax_scan vs (length pre) best mx < length (pre @ vs)
    \<and> (\<forall>j<length (pre @ vs). (pre @ vs) ! j \<le> (pre @ vs) ! argmax_scan vs (length pre) best mx)
    \<and> (\<forall>j<argmax_scan vs (length pre) best mx.
          (pre @ vs) ! j < (pre @ vs) ! argmax_scan vs (length pre) best mx)"
  using assms
proof (induction vs arbitrary: pre best mx)
  case Nil
  then show ?case by auto
next
  case (Cons v vs)
  show ?case
  proof (cases "mx < v")
    case True
    have "argmax_scan vs (length (pre @ [v])) (length pre) v < length ((pre @ [v]) @ vs)
      \<and> (\<forall>j<length ((pre @ [v]) @ vs). ((pre @ [v]) @ vs) ! j
            \<le> ((pre @ [v]) @ vs) ! argmax_scan vs (length (pre @ [v])) (length pre) v)
      \<and> (\<forall>j<argmax_scan vs (length (pre @ [v])) (length pre) v.
            ((pre @ [v]) @ vs) ! j
            < ((pre @ [v]) @ vs) ! argmax_scan vs (length (pre @ [v])) (length pre) v)"
    proof (rule Cons.IH)
      show "length pre < length (pre @ [v])" by simp
      show "(pre @ [v]) ! length pre = v" by simp
      show "\<forall>j<length (pre @ [v]). (pre @ [v]) ! j \<le> v"
        using Cons.prems(3) True by (auto simp add: nth_append less_Suc_eq intro: less_imp_le order_trans)
      show "\<forall>j<length pre. (pre @ [v]) ! j < v"
        using Cons.prems(3) True by (auto simp add: nth_append intro: le_less_trans)
    qed
    with True show ?thesis by simp
  next
    case False
    have "argmax_scan vs (length (pre @ [v])) best mx < length ((pre @ [v]) @ vs)
      \<and> (\<forall>j<length ((pre @ [v]) @ vs). ((pre @ [v]) @ vs) ! j
            \<le> ((pre @ [v]) @ vs) ! argmax_scan vs (length (pre @ [v])) best mx)
      \<and> (\<forall>j<argmax_scan vs (length (pre @ [v])) best mx.
            ((pre @ [v]) @ vs) ! j
            < ((pre @ [v]) @ vs) ! argmax_scan vs (length (pre @ [v])) best mx)"
    proof (rule Cons.IH)
      show "best < length (pre @ [v])" using Cons.prems(1) by simp
      show "(pre @ [v]) ! best = mx" using Cons.prems(1,2) by (simp add: nth_append)
      show "\<forall>j<length (pre @ [v]). (pre @ [v]) ! j \<le> mx"
        using Cons.prems(3) False by (auto simp add: nth_append less_Suc_eq)
      show "\<forall>j<best. (pre @ [v]) ! j < mx"
        using Cons.prems(1,4) by (auto simp add: nth_append)
    qed
    with False show ?thesis by simp
  qed
qed

lemma np_argmax_first_max:
  assumes "ps \<noteq> []"
  shows "\<exists>k<length ps. np_argmax ps = Inr k \<and> (\<forall>j<length ps. ps ! j \<le> ps ! k)
           \<and> (\<forall>j<k. ps ! j < ps ! k)"
proof -
  from assms obtain v vs where ps: "ps = v # vs" by (cases ps) auto
  have "argmax_scan vs (length [v]) 0 v < length ([v] @ vs)
    \<and> (\<forall>j<length ([v] @ vs). ([v] @ vs) ! j \<le> ([v] @ vs) ! argmax_scan vs (length [v]) 0 v)
    \<and> (\<forall>j<argmax_scan vs (length [v]) 0 v.
          ([v] @ vs) ! j < ([v] @ vs) ! argmax_scan vs (length [v]) 0 v)"
    by (rule argmax_scan_spec) simp_all
  then show ?thesis unfolding ps by (simp add: np_argmax_def)
qed


lemma dominant_freq_of_first_max:
  assumes "dominant_freq_of fs ps = Inr d"
  shows "\<exists>k. k < length ps \<and> k < length fs \<and> d = fs ! k
           \<and> (\<forall>j<length ps. ps ! j \<le> ps ! k) \<and> (\<forall>j<k. ps ! j < ps ! k)
           \<and> (sorted fs \<and> length fs = length ps \<longrightarrow>
                (\<forall>j<length ps. ps ! j = ps ! k \<longrightarrow> fs ! k \<le> fs ! j))"
proof -
  from assms have ne: "ps \<noteq> []"
    by (auto simp add: dominant_freq_of_def np_argmax_def py_bind_def)
  then obtain k where k: "k < length ps" "np_argmax ps = Inr k"
    "\<forall>j<length ps. ps ! j \<le> ps ! k" "\<forall>j<k. ps ! j < ps ! k"
    using np_argmax_first_max by blast
  from assms k(2) have kf: "k < length fs" and d: "d = fs ! k"
    by (auto simp add: dominant_freq_of_def np_getitem_def py_bind_def split: if_splits)
  have "fs ! k \<le> fs ! j"
    if "sorted fs \<and> length fs = length ps" "j < length ps" "ps ! j = ps ! k" for j
  proof -
    from that(3) k(4) have "k \<le> j" by (metis not_less order_less_irrefl)
    with that(1,2) show ?thesis by (simp add: sorted_nth_mono)
  qed
  with k(1,3,4) kf d show ?thesis by blast
qed

text \<open>
  Claim C6: in the result of either entry point, the dominant frequency is the frequency
  of a bin of the Welch estimate of the magnitude column whose power is maximal, and every
  earlier bin has strictly less power; so when the frequencies are in ascending order, it
  is the lowest frequency among the bins that share the maximal power.
\<close>

theorem dominant_freq_first_max:
  "(analyze_gluten_development_app welch df = Inr a \<longrightarrow>
      (\<exists>fs ps k. welch (column gFTotal df) (sampling_rate a) 1024 = Inr (fs, ps)
         \<and> k < length ps \<and> k < length fs \<and> dominant_freq a = fs ! k
         \<and> (\<forall>j<length ps. ps ! j \<le> ps ! k) \<and> (\<forall>j<k. ps ! j < ps ! k)
         \<and> (sorted fs \<and> length fs = length ps \<longrightarrow>
              (\<forall>j<length ps. ps ! j = ps ! k \<longrightarrow> fs ! k \<le> fs ! j))))
   \<and> (analyze_gluten_development_simple welch df = Inr s \<longrightarrow>
      welch (column gFTotal df) (sampling_rate s) 1024 = Inr (freqs s, psd s)
      \<and> (\<exists>k. k < length (psd s) \<and> k < length (freqs s) \<and> dominant_freq s = freqs s ! k
         \<and> (\<forall>j<length (psd s). psd s ! j \<le> psd s ! k) \<and> (\<forall>j<k. psd s ! j < psd s ! k)
         \<and> (sorted (freqs s) \<and> length (freqs s) = length (psd s) \<longrightarrow>
              (\<forall>j<length (psd s). psd s ! j = psd s ! k \<longrightarrow> freqs s ! k \<le> freqs s ! j))))"
proof (intro conjI impI)
  assume r: "analyze_gluten_development_app welch df = Inr a"
  from analysis_app_fields(7) [OF r] obtain fs ps where
    w: "welch (column gFTotal df) (sampling_rate a) 1024 = Inr (fs, ps)"
    and d: "dominant_freq_of fs ps = Inr (dominant_freq a)" by blast
  from dominant_freq_of_first_max [OF d] w
  show "\<exists>fs ps k. welch (column gFTotal df) (sampling_rate a) 1024 = Inr (fs, ps)
         \<and> k < length ps \<and> k < length fs \<and> dominant_freq a = fs ! k
         \<and> (\<forall>j<length ps. ps ! j \<le> ps ! k) \<and> (\<forall>j<k. ps ! j < ps ! k)
         \<and> (sorted fs \<and> length fs = length ps \<longrightarrow>
              (\<forall>j<length ps. ps ! j = ps ! k \<longrightarrow> fs ! k \<le> fs ! j))"
    by blast
next
  assume r: "analyze_gluten_development_simple welch df = Inr s"
  show "welch (column gFTotal df) (sampling_rate s) 1024 = Inr (freqs s, psd s)"
    by (rule analysis_simple_fields(7) [OF r])
  show "\<exists>k. k < length (psd s) \<and> k < length (freqs s) \<and> dominant_freq s = freqs s ! k
         \<and> (\<forall>j<length (psd s). psd s ! j \<le> psd s ! k) \<and> (\<forall>j<k. psd s ! j < psd s ! k)
         \<and> (sorted (freqs s) \<and> length (freqs s) = length (psd s) \<longrightarrow>
              (\<forall>j<length (psd s). psd s ! j = psd s ! k \<longrightarrow> freqs s ! k \<le> freqs s ! j))"
    by (rule dominant_freq_of_first_max [OF analysis_simple_fields(8) [OF r]])
qed

theorem dominant_freq_first_max_witness:
  "map_sum id dominant_freq (analyze_gluten_development_app example_welch example_frame)
     = Inr (1 / 5)
   \<and> map_sum id dominant_freq (analyze_gluten_development_simple example_welch example_frame)
     = Inr (1 / 5)
   \<and> example_welch (column gFTotal example_frame) (Fin 1) 1024
     = Inr ([0, 1 / 5, 2 / 5], [1, 6, 6])"
proof -
  let ?a = "\<lparr> total_time = Fin 4, mean_gforce = Fin 3, std_gforce = Fin 3, num_peaks = 1,
           sampling_rate = Fin 1, dominant_freq = 1 / 5,
           rolling_std = [NaN, NaN, NaN, NaN, NaN] \<rparr>"
  let ?s = "\<lparr> total_time = Fin 4, mean_gforce = Fin 3, std_gforce = Fin 3, num_peaks = 1,
           sampling_rate = Fin 1, dominant_freq = 1 / 5,
           rolling_std = [NaN, NaN, NaN, NaN, NaN],
           freqs = [0, 1 / 5, 2 / 5], psd = [1, 6, 6] \<rparr>"
  from dominant_freq_first_max [of example_welch example_frame ?a ?s]
  show ?thesis
    by (simp add: example_run_app example_run_simple example_welch_def)
qed

section \<open>Standard deviation of the magnitude\<close>





section \<open>Peak detection\<close>

lemma plateau_end_le:
  "i_ahead \<le> length x - 1 \<Longrightarrow> plateau_end x i i_ahead \<le> length x - 1"
proof (induction x i i_ahead rule: plateau_end.induct)
  case (1 x i i_ahead)
  show ?case
  proof (cases "i_ahead < length x - 1 \<and> x ! i_ahead = x ! i")
    case True
    with 1 show ?thesis by (subst plateau_end.simps) simp
  next
    case False
    with 1 show ?thesis by (subst plateau_end.simps) simp
  qed
qed

lemma plateau_end_run:
  "i_ahead \<le> k \<Longrightarrow> k < plateau_end x i i_ahead \<Longrightarrow> x ! k = x ! i"
proof (induction x i i_ahead rule: plateau_end.induct)
  case (1 x i i_ahead)
  show ?case
  proof (cases "i_ahead < length x - 1 \<and> x ! i_ahead = x ! i")
    case True
    then have e: "plateau_end x i i_ahead = plateau_end x i (i_ahead + 1)"
      by (subst plateau_end.simps) simp
    show ?thesis
    proof (cases "k = i_ahead")
      case True
      with \<open>i_ahead < length x - 1 \<and> x ! i_ahead = x ! i\<close> show ?thesis by simp
    next
      case False
      with 1 True e show ?thesis by simp
    qed
  next
    case False
    then have "plateau_end x i i_ahead = i_ahead" by (subst plateau_end.simps) auto
    with 1 show ?thesis by simp
  qed
qed

lemma plateau_end_eq:
  "j \<le> e \<Longrightarrow> e \<le> length x - 1 \<Longrightarrow> \<forall>k. j \<le> k \<and> k < e \<longrightarrow> x ! k = x ! i
     \<Longrightarrow> e < length x - 1 \<longrightarrow> x ! e \<noteq> x ! i \<Longrightarrow> plateau_end x i j = e"
proof (induction x i j rule: plateau_end.induct)
  case (1 x i j)
  show ?case
  proof (cases "j = e")
    case True
    with 1(5) show ?thesis by (subst plateau_end.simps) auto
  next
    case False
    with 1(2) have lt: "j < e" by simp
    with 1(3,4) have c: "j < length x - 1 \<and> x ! j = x ! i" by auto
    then have "plateau_end x i j = plateau_end x i (j + 1)"
      by (subst plateau_end.simps) simp
    also have "\<dots> = e" using 1(1) [OF c] lt 1(3,4,5) by simp
    finally show ?thesis .
  qed
qed

lemma plateau_peakD:
  assumes "plateau_peak x l r"
  shows "0 < l" and "l \<le> r" and "r + 1 < length x" and "x ! (l - 1) < x ! l"
    and "x ! (r + 1) < x ! l" and "\<And>k. l \<le> k \<Longrightarrow> k \<le> r \<Longrightarrow> x ! k = x ! l"
proof -
  from assms have a: "0 < l \<and> l \<le> r \<and> r + 1 < length x \<and> x ! (l - 1) < x ! l
     \<and> (\<forall>k\<in>{l..r}. x ! k = x ! l) \<and> x ! (r + 1) < x ! l"
    unfolding plateau_peak_def .
  from a show "0 < l" by blast
  from a show "l \<le> r" by blast
  from a show "r + 1 < length x" by blast
  from a show "x ! (l - 1) < x ! l" by blast
  from a show "x ! (r + 1) < x ! l" by blast
  from a have b: "\<forall>k\<in>{l..r}. x ! k = x ! l" by blast
  show "x ! k = x ! l" if "l \<le> k" "k \<le> r" for k
  proof -
    from that have "k \<in> {l..r}" by (rule atLeastAtMost_iff [THEN iffD2, OF conjI])
    with b show ?thesis by (rule bspec)
  qed
qed

lemma plateau_peakI:
  assumes "0 < l" and "l \<le> r" and "r + 1 < length x" and "x ! (l - 1) < x ! l"
    and "x ! (r + 1) < x ! l" and "\<And>k. l \<le> k \<Longrightarrow> k \<le> r \<Longrightarrow> x ! k = x ! l"
  shows "plateau_peak x l r"
proof -
  have "\<forall>k\<in>{l..r}. x ! k = x ! l"
  proof
    fix k assume "k \<in> {l..r}"
    then have "l \<le> k" "k \<le> r" by (blast dest: atLeastAtMost_iff [THEN iffD1])+
    then show "x ! k = x ! l" by (rule assms(6))
  qed
  with assms(1-5) show ?thesis unfolding plateau_peak_def by blast
qed

lemma plateau_peak_end:
  assumes "plateau_peak x l r"
  shows "plateau_end x l (l + 1) = r + 1"
proof (rule plateau_end_eq)
  note d = plateau_peakD [OF assms]
  show "l + 1 \<le> r + 1" using d(2) by simp
  show "r + 1 \<le> length x - 1" using d(3) by simp
  show "\<forall>k. l + 1 \<le> k \<and> k < r + 1 \<longrightarrow> x ! k = x ! l"
  proof (intro allI impI)
    fix k assume "l + 1 \<le> k \<and> k < r + 1"
    then have "l \<le> k" "k \<le> r" by simp_all
    then show "x ! k = x ! l" by (rule d(6))
  qed
  show "r + 1 < length x - 1 \<longrightarrow> x ! (r + 1) \<noteq> x ! l" using d(5) by simp
qed

lemma plateau_peak_found:
  assumes "0 < i" and "i < length x - 1" and "x ! (i - 1) < x ! i"
    and "x ! plateau_end x i (i + 1) < x ! i"
  shows "plateau_peak x i (plateau_end x i (i + 1) - 1)"
proof (rule plateau_peakI)
  let ?e = "plateau_end x i (i + 1)"
  have ge: "i + 1 \<le> ?e" by (rule plateau_end_ge)
  have le: "?e \<le> length x - 1" using assms(2) by (intro plateau_end_le) simp
  show "0 < i" by (rule assms(1))
  show "i \<le> ?e - 1" using ge by simp
  show "?e - 1 + 1 < length x" using ge le assms(2) by simp
  show "x ! (i - 1) < x ! i" by (rule assms(3))
  show "x ! (?e - 1 + 1) < x ! i" using ge assms(4) by simp
  show "x ! k = x ! i" if "i \<le> k" "k \<le> ?e - 1" for k
  proof (cases "k = i")
    case True then show ?thesis by simp
  next
    case False
    with that ge have "i + 1 \<le> k" "k < ?e" by simp_all
    then show ?thesis by (rule plateau_end_run)
  qed
qed

lemma plateau_peak_unique:
  assumes "plateau_peak x l r" and "plateau_peak x l r'"
  shows "r = r'"
  using plateau_peak_end [OF assms(1)] plateau_peak_end [OF assms(2)] by simp

lemma peak_after_found:
  assumes pk: "plateau_peak x i r" and other: "plateau_peak x l r'" and "i \<le> l"
  shows "(l = i \<and> r' = r) \<or> r + 2 \<le> l"
proof (cases "l = i")
  case True
  with pk other show ?thesis using plateau_peak_unique by blast
next
  case False
  with assms(3) have il: "i < l" by simp
  have "\<not> l \<le> r + 1"
  proof
    assume le: "l \<le> r + 1"
    have prev: "x ! (l - 1) = x ! i"
      using il le by (intro plateau_peakD(6) [OF pk]) simp_all
    show False
    proof (cases "l = r + 1")
      case True
      with plateau_peakD(5) [OF pk] have "x ! l < x ! i" by simp
      with prev plateau_peakD(4) [OF other] show False by simp
    next
      case False
      with le have "l \<le> r" by simp
      with il have "x ! l = x ! i" by (intro plateau_peakD(6) [OF pk]) simp_all
      with prev plateau_peakD(4) [OF other] show False by simp
    qed
  qed
  then show ?thesis by simp
qed

lemma local_maxima_from_iff:
  "0 < i \<Longrightarrow> p \<in> set (local_maxima_from x i)
     \<longleftrightarrow> (\<exists>l r. plateau_peak x l r \<and> i \<le> l \<and> p = (l + r) div 2)"
proof (induction x i rule: local_maxima_from.induct)
  case (1 x i)
  let ?e = "plateau_end x i (i + 1)"
  have ge: "i + 1 \<le> ?e" by (rule plateau_end_ge)
  consider (stop) "\<not> i < length x - 1"
    | (peak) "i < length x - 1" "x ! (i - 1) < x ! i" "x ! ?e < x ! i"
    | (nopeak) "i < length x - 1" "x ! (i - 1) < x ! i" "\<not> x ! ?e < x ! i"
    | (flat) "i < length x - 1" "\<not> x ! (i - 1) < x ! i"
    by blast
  then show ?case
  proof cases
    case stop
    then have "local_maxima_from x i = []" by (subst local_maxima_from.simps) simp
    moreover have "\<not> (plateau_peak x l r \<and> i \<le> l)" for l r
    proof
      assume a: "plateau_peak x l r \<and> i \<le> l"
      then have "l \<le> r" "r + 1 < length x" "i \<le> l" by (blast dest: plateau_peakD)+
      with stop show False by simp
    qed
    ultimately show ?thesis by auto
  next
    case peak
    have unf: "local_maxima_from x i = ((i + (?e - 1)) div 2) # local_maxima_from x (?e + 1)"
      using peak by (subst local_maxima_from.simps) (simp add: Let_def)
    have IH: "p \<in> set (local_maxima_from x (?e + 1))
        \<longleftrightarrow> (\<exists>l r. plateau_peak x l r \<and> ?e + 1 \<le> l \<and> p = (l + r) div 2)"
      using "1.IH"(1) [OF peak(1,2) refl peak(3)] by simp
    have pk: "plateau_peak x i (?e - 1)"
      using "1.prems" peak by (intro plateau_peak_found)
    show ?thesis
    proof
      assume "p \<in> set (local_maxima_from x i)"
      with unf have "p = (i + (?e - 1)) div 2 \<or> p \<in> set (local_maxima_from x (?e + 1))"
        by simp
      then show "\<exists>l r. plateau_peak x l r \<and> i \<le> l \<and> p = (l + r) div 2"
      proof
        assume "p = (i + (?e - 1)) div 2"
        with pk show ?thesis by blast
      next
        assume "p \<in> set (local_maxima_from x (?e + 1))"
        with IH obtain l r where "plateau_peak x l r" "?e + 1 \<le> l" "p = (l + r) div 2"
          by blast
        moreover from this ge have "i \<le> l" by simp
        ultimately show ?thesis by blast
      qed
    next
      assume "\<exists>l r. plateau_peak x l r \<and> i \<le> l \<and> p = (l + r) div 2"
      then obtain l r where lr: "plateau_peak x l r" "i \<le> l" "p = (l + r) div 2" by blast
      from peak_after_found [OF pk lr(1,2)] ge
      have "(l = i \<and> r = ?e - 1) \<or> ?e + 1 \<le> l" by auto
      then show "p \<in> set (local_maxima_from x i)"
      proof
        assume "l = i \<and> r = ?e - 1"
        with lr(3) unf show ?thesis by simp
      next
        assume "?e + 1 \<le> l"
        with lr IH have "p \<in> set (local_maxima_from x (?e + 1))" by blast
        with unf show ?thesis by simp
      qed
    qed
  next
    case nopeak
    have unf: "local_maxima_from x i = local_maxima_from x (i + 1)"
      using nopeak by (subst local_maxima_from.simps) (simp add: Let_def)
    have IH: "p \<in> set (local_maxima_from x (i + 1))
        \<longleftrightarrow> (\<exists>l r. plateau_peak x l r \<and> i + 1 \<le> l \<and> p = (l + r) div 2)"
      using "1.IH"(2) [OF nopeak(1,2) refl nopeak(3)] by simp
    have "\<not> plateau_peak x i r" for r
    proof
      assume a: "plateau_peak x i r"
      from plateau_peak_end [OF a] plateau_peakD(5) [OF a] nopeak(3) show False by simp
    qed
    then have "plateau_peak x l r \<and> i \<le> l \<longleftrightarrow> plateau_peak x l r \<and> i + 1 \<le> l" for l r
      by (cases "l = i") auto
    then have "(\<exists>l r. plateau_peak x l r \<and> i \<le> l \<and> p = (l + r) div 2)
        \<longleftrightarrow> (\<exists>l r. plateau_peak x l r \<and> i + 1 \<le> l \<and> p = (l + r) div 2)"
      by blast
    with unf IH show ?thesis by simp
  next
    case flat
    have unf: "local_maxima_from x i = local_maxima_from x (i + 1)"
      using flat by (subst local_maxima_from.simps) simp
    have IH: "p \<in> set (local_maxima_from x (i + 1))
        \<longleftrightarrow> (\<exists>l r. plateau_peak x l r \<and> i + 1 \<le> l \<and> p = (l + r) div 2)"
      using "1.IH"(3) [OF flat] by simp
    have "\<not> plateau_peak x i r" for r
      using plateau_peakD(4) [of x i r] flat(2) by blast
    then have "plateau_peak x l r \<and> i \<le> l \<longleftrightarrow> plateau_peak x l r \<and> i + 1 \<le> l" for l r
      by (cases "l = i") auto
    then have "(\<exists>l r. plateau_peak x l r \<and> i \<le> l \<and> p = (l + r) div 2)
        \<longleftrightarrow> (\<exists>l r. plateau_peak x l r \<and> i + 1 \<le> l \<and> p = (l + r) div 2)"
      by blast
    with unf IH show ?thesis by simp
  qed
qed

lemma local_maxima_from_ge:
  assumes "0 < i" and "p \<in> set (local_maxima_from x i)"
  shows "i \<le> p"
proof -
  from assms obtain l r where lr: "plateau_peak x l r" "i \<le> l" "p = (l + r) div 2"
    using local_maxima_from_iff by blast
  from plateau_peakD(2) [OF lr(1)] lr(2,3) show ?thesis by simp
qed

lemma local_maxima_from_distinct: "0 < i \<Longrightarrow> distinct (local_maxima_from x i)"
proof (induction x i rule: local_maxima_from.induct)
  case (1 x i)
  let ?e = "plateau_end x i (i + 1)"
  have ge: "i + 1 \<le> ?e" by (rule plateau_end_ge)
  consider (stop) "\<not> i < length x - 1"
    | (peak) "i < length x - 1" "x ! (i - 1) < x ! i" "x ! ?e < x ! i"
    | (nopeak) "i < length x - 1" "x ! (i - 1) < x ! i" "\<not> x ! ?e < x ! i"
    | (flat) "i < length x - 1" "\<not> x ! (i - 1) < x ! i"
    by blast
  then show ?case
  proof cases
    case stop
    then have "local_maxima_from x i = []" by (subst local_maxima_from.simps) simp
    then show ?thesis by simp
  next
    case peak
    have unf: "local_maxima_from x i = ((i + (?e - 1)) div 2) # local_maxima_from x (?e + 1)"
      using peak by (subst local_maxima_from.simps) (simp add: Let_def)
    have d: "distinct (local_maxima_from x (?e + 1))"
      using "1.IH"(1) [OF peak(1,2) refl peak(3)] by simp
    have "(i + (?e - 1)) div 2 \<notin> set (local_maxima_from x (?e + 1))"
    proof
      assume "(i + (?e - 1)) div 2 \<in> set (local_maxima_from x (?e + 1))"
      then have "?e + 1 \<le> (i + (?e - 1)) div 2" by (intro local_maxima_from_ge) simp_all
      with ge show False by simp
    qed
    with unf d show ?thesis by simp
  next
    case nopeak
    have "local_maxima_from x i = local_maxima_from x (i + 1)"
      using nopeak by (subst local_maxima_from.simps) (simp add: Let_def)
    with "1.IH"(2) [OF nopeak(1,2) refl nopeak(3)] show ?thesis by simp
  next
    case flat
    have "local_maxima_from x i = local_maxima_from x (i + 1)"
      using flat by (subst local_maxima_from.simps) simp
    with "1.IH"(3) [OF flat] show ?thesis by simp
  qed
qed

lemma find_peaks_iff:
  "p \<in> set (find_peaks x h)
     \<longleftrightarrow> (\<exists>l r. plateau_peak x l r \<and> p = (l + r) div 2) \<and> np_le h (Fin (x ! p))"
proof -
  have one: "1 \<le> l" if "plateau_peak x l r" for l r
    using plateau_peakD(1) [OF that] by simp
  have "(\<exists>l r. plateau_peak x l r \<and> 1 \<le> l \<and> p = (l + r) div 2)
      \<longleftrightarrow> (\<exists>l r. plateau_peak x l r \<and> p = (l + r) div 2)"
    using one by blast
  with local_maxima_from_iff [of 1 p x]
  have "p \<in> set (local_maxima_from x 1) \<longleftrightarrow> (\<exists>l r. plateau_peak x l r \<and> p = (l + r) div 2)"
    by simp
  then show ?thesis by (simp add: find_peaks_def local_maxima_1d_def)
qed

lemma find_peaks_inner:
  assumes "p \<in> set (find_peaks x h)"
  shows "0 < p \<and> p + 1 < length x"
proof -
  from assms obtain l r where lr: "plateau_peak x l r" "p = (l + r) div 2"
    using find_peaks_iff by blast
  from plateau_peakD(1,2,3) [OF lr(1)] lr(2) show ?thesis by simp
qed

lemma strict_maximum_plateau:
  assumes "0 < p" and "p + 1 < length x" and "x ! (p - 1) < x ! p" and "x ! (p + 1) < x ! p"
  shows "plateau_peak x p p"
  using assms by (intro plateau_peakI) simp_all

lemma single_pulseD:
  assumes "single_pulse x m"
  shows "0 < m" and "m + 1 < length x"
    and "\<And>j. j < m \<Longrightarrow> x ! j < x ! (j + 1)"
    and "\<And>j. m \<le> j \<Longrightarrow> j + 1 < length x \<Longrightarrow> x ! (j + 1) < x ! j"
proof -
  from assms have a: "0 < m \<and> m + 1 < length x \<and> (\<forall>j\<in>{..<m}. x ! j < x ! (j + 1))
     \<and> (\<forall>j\<in>{m..<length x - 1}. x ! (j + 1) < x ! j)"
    unfolding single_pulse_def .
  from a show "0 < m" by blast
  from a show "m + 1 < length x" by blast
  from a have b: "\<forall>j\<in>{..<m}. x ! j < x ! (j + 1)" by blast
  show "x ! j < x ! (j + 1)" if "j < m" for j
    using b that by (simp add: Ball_def)
  from a have c: "\<forall>j\<in>{m..<length x - 1}. x ! (j + 1) < x ! j" by blast
  show "x ! (j + 1) < x ! j" if "m \<le> j" "j + 1 < length x" for j
    using c that by (simp add: Ball_def)
qed

lemma pulse_only_peak:
  assumes sp: "single_pulse x m" and pk: "plateau_peak x l r"
  shows "l = m \<and> r = m"
proof -
  note d = plateau_peakD [OF pk]
  note s = single_pulseD [OF sp]
  have lr: "l = r"
  proof (rule ccontr)
    assume "l \<noteq> r"
    with d(2) have lt: "l < r" by simp
    then have eq: "x ! (l + 1) = x ! l" by (intro d(6)) simp_all
    show False
    proof (cases "l < m")
      case True
      from s(3) [OF True] eq show False by simp
    next
      case False
      then have "m \<le> l" by simp
      moreover from lt d(3) have "l + 1 < length x" by simp
      ultimately have "x ! (l + 1) < x ! l" by (rule s(4))
      with eq show False by simp
    qed
  qed
  have "\<not> l < m"
  proof
    assume "l < m"
    from s(3) [OF this] d(5) lr show False by simp
  qed
  moreover have "\<not> m < l"
  proof
    assume "m < l"
    then have "m \<le> l - 1" by simp
    moreover from d(1,2,3) have "l - 1 + 1 < length x" by simp
    ultimately have "x ! (l - 1 + 1) < x ! (l - 1)" by (rule s(4))
    with d(1,4) show False by simp
  qed
  ultimately show ?thesis using lr by simp
qed

lemma pulse_peak:
  assumes "single_pulse x m"
  shows "plateau_peak x m m"
proof -
  note s = single_pulseD [OF assms]
  have "x ! (m - 1) < x ! (m - 1 + 1)" using s(1) by (intro s(3)) simp
  with s(1) have "x ! (m - 1) < x ! m" by simp
  moreover have "x ! (m + 1) < x ! m" using s(2) by (intro s(4)) simp_all
  ultimately show ?thesis using s(1,2) by (intro strict_maximum_plateau)
qed

lemma distinct_singleton_set:
  assumes "distinct xs" and "set xs = {a}"
  shows "xs = [a]"
proof -
  from assms have "length xs = 1" using distinct_card [of xs] by simp
  then obtain y where y: "xs = [y]" by (auto simp add: length_Suc_conv)
  with assms(2) show ?thesis by simp
qed

lemma find_peaks_pulse:
  assumes sp: "single_pulse x m" and h: "np_le h (Fin (x ! m))"
  shows "find_peaks x h = [m]"
proof -
  have "distinct (local_maxima_from x 1)" by (rule local_maxima_from_distinct) simp
  then have "distinct (find_peaks x h)"
    unfolding find_peaks_def local_maxima_1d_def by (rule distinct_filter)
  moreover have "set (find_peaks x h) = {m}"
  proof (intro equalityI subsetI)
    fix p assume "p \<in> set (find_peaks x h)"
    then have "\<exists>l r. plateau_peak x l r \<and> p = (l + r) div 2"
      by (simp only: find_peaks_iff)
    then obtain l r where lr: "plateau_peak x l r" "p = (l + r) div 2" by blast
    from pulse_only_peak [OF sp lr(1)] lr(2) show "p \<in> {m}" by simp
  next
    fix p assume "p \<in> {m}"
    then have p: "p = (m + m) div 2" by simp
    have "\<exists>l r. plateau_peak x l r \<and> p = (l + r) div 2"
      using pulse_peak [OF sp] p by blast
    moreover from p h have "np_le h (Fin (x ! p))" by simp
    ultimately show "p \<in> set (find_peaks x h)" by (simp only: find_peaks_iff)
  qed
  ultimately show ?thesis by (rule distinct_singleton_set)
qed

text \<open>
  Claim C2 says that an index is flagged if and only if its sample is strictly greater
  than both neighbours and exceeds the threshold \<open>mean + 0.5 * std\<close>. In the first
  series index 1 is flagged although the sample after it is equal to it (a flat peak is
  reported at its middle); in the second series index 1 is flagged although its sample
  equals the threshold 3 (the height is a minimal height).
\<close>

theorem find_peaks_flat_and_equal:
  "find_peaks [0, 4, 4, 0, 2]
      (peak_height (series_mean [0, 4, 4, 0, 2]) (series_std [0, 4, 4, 0, 2])) = [1]
   \<and> peak_height (series_mean [1, 3, 0, 5, 1]) (series_std [1, 3, 0, 5, 1]) = Fin 3
   \<and> find_peaks [1, 3, 0, 5, 1]
      (peak_height (series_mean [1, 3, 0, 5, 1]) (series_std [1, 3, 0, 5, 1])) = [1, 3]"
proof -
  have s1: "series_std [0, 4, 4, 0, 2] = Fin 2"
    by (simp add: series_std_def std_ddof1_def sum_sq_dev_def mean_of_def)
  have s2: "series_std [1, 3, 0, 5, 1] = Fin 2"
    by (simp add: series_std_def std_ddof1_def sum_sq_dev_def mean_of_def)
  have h1: "peak_height (series_mean [0, 4, 4, 0, 2]) (series_std [0, 4, 4, 0, 2]) = Fin 3"
    by (simp add: s1 peak_height_def series_mean_def mean_of_def np_mul_Fin np_add_Fin)
  have h2: "peak_height (series_mean [1, 3, 0, 5, 1]) (series_std [1, 3, 0, 5, 1]) = Fin 3"
    by (simp add: s2 peak_height_def series_mean_def mean_of_def np_mul_Fin np_add_Fin)
  have p1: "find_peaks [0, 4, 4, 0, 2] (Fin 3) = [1]"
    by (simp add: find_peaks_def local_maxima_1d_def local_maxima_from.simps
        plateau_end.simps Let_def)
  have p2: "find_peaks [1, 3, 0, 5, 1] (Fin 3) = [1, 3]"
    by (simp add: find_peaks_def local_maxima_1d_def local_maxima_from.simps
        plateau_end.simps Let_def)
  from h1 h2 p1 p2 show ?thesis by simp
qed

text \<open>
  Claim C2, as the code has it: an index is flagged if and only if it is the middle
  (rounded down) of a plateau peak and its sample is at least the threshold. So the first
  and the last sample are never flagged, every sample strictly greater than both
  neighbours and at least the threshold is flagged, and a single pulse whose apex is at
  least the threshold gives exactly one peak, at the apex.
\<close>

theorem find_peaks_flags:
  "(p \<in> set (find_peaks x h)
      \<longleftrightarrow> (\<exists>l r. plateau_peak x l r \<and> p = (l + r) div 2) \<and> np_le h (Fin (x ! p)))
   \<and> (p \<in> set (find_peaks x h) \<longrightarrow> 0 < p \<and> p + 1 < length x)
   \<and> (0 < p \<and> p + 1 < length x \<and> x ! (p - 1) < x ! p \<and> x ! (p + 1) < x ! p
        \<and> np_le h (Fin (x ! p)) \<longrightarrow> p \<in> set (find_peaks x h))
   \<and> (single_pulse x m \<and> np_le h (Fin (x ! m)) \<longrightarrow> find_peaks x h = [m])"
proof (intro conjI impI)
  show "p \<in> set (find_peaks x h)
      \<longleftrightarrow> (\<exists>l r. plateau_peak x l r \<and> p = (l + r) div 2) \<and> np_le h (Fin (x ! p))"
    by (rule find_peaks_iff)
  show "0 < p" if "p \<in> set (find_peaks x h)" using find_peaks_inner [OF that] by simp
  show "p + 1 < length x" if "p \<in> set (find_peaks x h)"
    using find_peaks_inner [OF that] by simp
  show "p \<in> set (find_peaks x h)"
    if a: "0 < p \<and> p + 1 < length x \<and> x ! (p - 1) < x ! p \<and> x ! (p + 1) < x ! p
        \<and> np_le h (Fin (x ! p))"
  proof -
    from a have "plateau_peak x p p" by (intro strict_maximum_plateau) simp_all
    moreover have "p = (p + p) div 2" by simp
    ultimately have "\<exists>l r. plateau_peak x l r \<and> p = (l + r) div 2" by blast
    with a show ?thesis by (simp only: find_peaks_iff)
  qed
  show "find_peaks x h = [m]" if "single_pulse x m \<and> np_le h (Fin (x ! m))"
    using that by (intro find_peaks_pulse) simp_all
qed

theorem find_peaks_flags_witness:
  "find_peaks [0, 4, 7, 4, 0]
      (peak_height (series_mean [0, 4, 7, 4, 0]) (series_std [0, 4, 7, 4, 0])) = [2]
   \<and> 0 \<notin> set (find_peaks [0, 4, 7, 4, 0] (Fin (9 / 2)))
   \<and> 4 \<notin> set (find_peaks [0, 4, 7, 4, 0] (Fin (9 / 2)))"
proof -
  let ?x = "[0, 4, 7, 4, 0] :: real list"
  have s: "series_std ?x = Fin 3"
    by (simp add: series_std_def std_ddof1_def sum_sq_dev_def mean_of_def)
  have h: "peak_height (series_mean ?x) (series_std ?x) = Fin (9 / 2)"
    by (simp add: s peak_height_def series_mean_def mean_of_def np_mul_Fin np_add_Fin
        f64_values)
  have sp: "single_pulse ?x 2"
    by (simp add: single_pulse_def lessThan_nat_numeral atLeastLessThan_nat_numeral
        lessThan_Suc atLeastLessThanSuc)
  have le: "np_le (Fin (9 / 2)) (Fin (?x ! 2))" by simp
  note t = find_peaks_flags [of _ ?x "Fin (9 / 2)" 2]
  from t [of 0] sp le have "find_peaks ?x (Fin (9 / 2)) = [2]" by blast
  moreover from t [of 0] have "0 \<notin> set (find_peaks ?x (Fin (9 / 2)))" by blast
  moreover from t [of 4] have "4 \<notin> set (find_peaks ?x (Fin (9 / 2)))" by auto
  ultimately show ?thesis using h by simp
qed

end
